theory Spec2Isabelle
  imports Complex_Main
begin

section \<open>Data model (prisma/schema.prisma)\<close>

text \<open>
  Identifiers are the store's \<^verbatim>\<open>@default(cuid())\<close> keys. The generator is outside the
  program; it is modelled by a counter kept in the store, from which every \<^verbatim>\<open>create\<close>
  draws the next value. \<^verbatim>\<open>DateTime\<close> values are points on a discrete clock; the
  handlers receive the value of \<^verbatim>\<open>new Date()\<close> as the argument \<open>now\<close>.
\<close>

type_synonym ident = nat
type_synonym datetime = nat

datatype Role = ADMIN | BASE_COMMANDER | LOGISTICS_OFFICER

datatype AssetStatus =
  AVAILABLE | ASSIGNED | IN_TRANSIT | MAINTENANCE | EXPENDED | DECOMMISSIONED

text \<open>The schema's \<^verbatim>\<open>TransferStatus\<close> also has a member \<^verbatim>\<open>IN_TRANSIT\<close>; it is
  written \<open>T_IN_TRANSIT\<close> here to keep it apart from the asset status.\<close>

datatype TransferStatus = PENDING | APPROVED | T_IN_TRANSIT | COMPLETED | CANCELLED

datatype EquipmentType =
  VEHICLE | WEAPON | AMMUNITION | COMMUNICATION | MEDICAL | SUPPLY | OTHER

text \<open>Of \<^verbatim>\<open>User\<close> and \<^verbatim>\<open>Base\<close> the fields read by the handlers below are kept
  (password, personal names and the row timestamps are not).\<close>

record User =
  user_id :: ident
  user_email :: string
  user_username :: string
  user_role :: Role
  user_baseId :: "ident option"
  user_isActive :: bool

record Base =
  base_id :: ident
  base_name :: string
  base_code :: string
  base_location :: string
  base_isActive :: bool

record Asset =
  asset_id :: ident
  asset_serialNumber :: string
  asset_name :: string
  asset_description :: "string option"
  asset_equipmentType :: EquipmentType
  asset_status :: AssetStatus
  asset_baseId :: ident
  asset_purchaseId :: "ident option"
  asset_value :: "rat option"
  asset_acquisitionDate :: "datetime option"
  asset_warrantyExpiry :: "datetime option"
  asset_createdAt :: datetime
  asset_updatedAt :: datetime

record Transfer =
  transfer_id :: ident
  transfer_transferCode :: string
  transfer_fromBaseId :: ident
  transfer_toBaseId :: ident
  transfer_status :: TransferStatus
  transfer_reason :: string
  transfer_notes :: "string option"
  transfer_createdById :: ident
  transfer_approvedById :: "ident option"
  transfer_approvedAt :: "datetime option"
  transfer_completedAt :: "datetime option"
  transfer_createdAt :: datetime
  transfer_updatedAt :: datetime

record TransferItem =
  item_id :: ident
  item_transferId :: ident
  item_assetId :: ident
  item_quantity :: int
  item_notes :: "string option"

record Assignment =
  assignment_id :: ident
  assignment_assetId :: ident
  assignment_assignedToId :: ident
  assignment_baseId :: ident
  assignment_assignedAt :: datetime
  assignment_returnedAt :: "datetime option"
  assignment_purpose :: string
  assignment_notes :: "string option"
  assignment_createdById :: ident
  assignment_createdAt :: datetime
  assignment_updatedAt :: datetime

record Expenditure =
  expenditure_id :: ident
  expenditure_assetId :: ident
  expenditure_baseId :: ident
  expenditure_quantity :: int
  expenditure_reason :: string
  expenditure_description :: "string option"
  expenditure_expendedAt :: datetime
  expenditure_createdById :: ident
  expenditure_createdAt :: datetime
  expenditure_updatedAt :: datetime

text \<open>The store: one list of rows per table, and the identifier counter.\<close>

record db =
  bases :: "Base list"
  users :: "User list"
  assets :: "Asset list"
  transfers :: "Transfer list"
  transferItems :: "TransferItem list"
  assignments :: "Assignment list"
  expenditures :: "Expenditure list"
  next_id :: ident

text \<open>The errors the client library throws: a unique key violated (P2002), a foreign
  key violated (P2003), the row of an \<^verbatim>\<open>update\<close> or \<^verbatim>\<open>delete\<close> missing (P2025),
  and a value that the type of its column does not admit (\<open>InvalidValue\<close>, an error
  with none of these codes).\<close>

datatype PrismaError = P2002 | P2003 | P2025 | InvalidValue

text \<open>What a handler answers: \<^verbatim>\<open>res.status(s).json({ ..., message })\<close>. A success
  answer carries the message of the source; the payload is a re-read of the store.\<close>

datatype Response = Response (res_status: nat) (res_message: string)

text \<open>The handlers answer 400 with a message naming the rule when a business rule is
  broken (the specification's \<^verbatim>\<open>ConflictError\<close>), 403 when the caller's base does not
  allow the operation, 404 when a row is not found, and 500 from their \<^verbatim>\<open>catch\<close>
  block when the store throws.\<close>

text \<open>A handler is a function of the authenticated caller (\<^verbatim>\<open>req.user\<close>, a row of
  \<^verbatim>\<open>User\<close>), the request's parameters and body, the clock and the store; it returns
  the answer and the store it leaves. The routes run \<^verbatim>\<open>authorize\<close> (the role check)
  and \<^verbatim>\<open>validate\<close> (utils/validation.js) before the handler. The bodies below are
  those of requests that give every field with the JSON type of its schema: a text is
  a JSON string, a quantity a JSON number that is an integer, a value a JSON number, an
  identifier the key it names; a field that may be absent is an \<open>option\<close>. The
  schemas bound the length of some texts and ask for positive numbers; the handlers are
  modelled on all texts and all numbers.\<close>

section \<open>JavaScript idioms\<close>

text \<open>\<^verbatim>\<open>a || b\<close> on optional strings: \<open>a\<close> unless it is undefined, null or empty.\<close>

definition str_or :: "string option \<Rightarrow> string option \<Rightarrow> string option" where
  "str_or a b = (case a of None \<Rightarrow> b | Some s \<Rightarrow> if s = [] then b else Some s)"

text \<open>\<^verbatim>\<open>notes || ''\<close>.\<close>

definition str_or_empty :: "string option \<Rightarrow> string" where
  "str_or_empty a = (case a of None \<Rightarrow> [] | Some s \<Rightarrow> s)"

text \<open>A text is the list of the bytes of its UTF-8 encoding. The white space and the
  line terminators of the language, which \<^verbatim>\<open>String.prototype.trim\<close> removes: U+0009 to
  U+000D, U+0020, U+00A0, U+1680, U+2000 to U+200A, U+2028, U+2029, U+202F, U+205F,
  U+3000 and U+FEFF, each as its bytes.\<close>

definition white_space :: "string list" where
  "white_space =
     [[CHR 0x09], [CHR 0x0A], [CHR 0x0B], [CHR 0x0C], [CHR 0x0D], [CHR 0x20],
      [CHR 0xC2, CHR 0xA0], [CHR 0xE1, CHR 0x9A, CHR 0x80],
      [CHR 0xE2, CHR 0x80, CHR 0x80], [CHR 0xE2, CHR 0x80, CHR 0x81],
      [CHR 0xE2, CHR 0x80, CHR 0x82], [CHR 0xE2, CHR 0x80, CHR 0x83],
      [CHR 0xE2, CHR 0x80, CHR 0x84], [CHR 0xE2, CHR 0x80, CHR 0x85],
      [CHR 0xE2, CHR 0x80, CHR 0x86], [CHR 0xE2, CHR 0x80, CHR 0x87],
      [CHR 0xE2, CHR 0x80, CHR 0x88], [CHR 0xE2, CHR 0x80, CHR 0x89],
      [CHR 0xE2, CHR 0x80, CHR 0x8A], [CHR 0xE2, CHR 0x80, CHR 0xA8],
      [CHR 0xE2, CHR 0x80, CHR 0xA9], [CHR 0xE2, CHR 0x80, CHR 0xAF],
      [CHR 0xE2, CHR 0x81, CHR 0x9F], [CHR 0xE3, CHR 0x80, CHR 0x80],
      [CHR 0xEF, CHR 0xBB, CHR 0xBF]]"

fun starts_with :: "string \<Rightarrow> string \<Rightarrow> bool" where
  "starts_with [] s = True"
| "starts_with (c # w) [] = False"
| "starts_with (c # w) (x # s) = (c = x \<and> starts_with w s)"

text \<open>\<open>strip ws s\<close> removes from the front of \<open>s\<close> every leading occurrence of one of
  the byte sequences \<open>ws\<close>.\<close>

fun strip :: "string list \<Rightarrow> string \<Rightarrow> string" where
  "strip ws [] = []"
| "strip ws (c # s) =
     (case find (\<lambda>w. w \<noteq> [] \<and> starts_with w (c # s)) ws of
        None \<Rightarrow> c # s
      | Some w \<Rightarrow> strip ws (drop (length w - 1) s))"

text \<open>\<^verbatim>\<open>String.prototype.trim\<close>: the white space is removed at both ends.\<close>

definition trim :: "string \<Rightarrow> string" where
  "trim s = rev (strip (map rev white_space) (rev (strip white_space s)))"

section \<open>Column types\<close>

text \<open>\<^verbatim>\<open>Int\<close> is a signed integer of 32 bits; a \<^verbatim>\<open>create\<close> given another integer
  throws.\<close>

definition int32 :: "int \<Rightarrow> bool" where
  "int32 n \<longleftrightarrow> - (2 ^ 31) \<le> n \<and> n < 2 ^ 31"

text \<open>A \<^verbatim>\<open>String\<close> column is a PostgreSQL \<^verbatim>\<open>text\<close>, which has no character U+0000:
  the store refuses a row with such a text.\<close>

definition text_ok :: "string \<Rightarrow> bool" where
  "text_ok s \<longleftrightarrow> CHR 0x00 \<notin> set s"

definition text_opt_ok :: "string option \<Rightarrow> bool" where
  "text_opt_ok s = (case s of None \<Rightarrow> True | Some x \<Rightarrow> text_ok x)"

text \<open>\<^verbatim>\<open>Decimal\<close> without arguments is \<^verbatim>\<open>decimal(65,30)\<close>: the store keeps 30 digits
  after the point, rounding half away from zero, and refuses a value that then needs
  more than 35 digits before it. The number of a request is the decimal fraction that
  the JavaScript number prints as.\<close>

definition decimal_round :: "rat \<Rightarrow> rat" where
  "decimal_round x =
     (if 0 \<le> x then of_int \<lfloor>x * 10 ^ 30 + 1 / 2\<rfloor> / 10 ^ 30
      else - (of_int \<lfloor>- x * 10 ^ 30 + 1 / 2\<rfloor> / 10 ^ 30))"

definition decimal_ok :: "rat \<Rightarrow> bool" where
  "decimal_ok x \<longleftrightarrow> \<bar>decimal_round x\<bar> < 10 ^ 35"

definition decimal_opt_ok :: "rat option \<Rightarrow> bool" where
  "decimal_opt_ok v = (case v of None \<Rightarrow> True | Some x \<Rightarrow> decimal_ok x)"

text \<open>A date of a request body is a JSON number, the milliseconds of the instant, or a
  string that \<^verbatim>\<open>new Date\<close> reads as an instant. \<^verbatim>\<open>x ? new Date(x) : null\<close> takes an
  absent date and the number 0 for no date.\<close>

datatype DateInput = Millis datetime | DateText datetime

definition date_or_null :: "DateInput option \<Rightarrow> datetime option" where
  "date_or_null x =
     (case x of
        None \<Rightarrow> None
      | Some (Millis n) \<Rightarrow> if n = 0 then None else Some n
      | Some (DateText t) \<Rightarrow> Some t)"

section \<open>Store operations (Prisma client calls)\<close>

definition find_base :: "ident \<Rightarrow> db \<Rightarrow> Base option" where
  "find_base i d = find (\<lambda>b. base_id b = i) (bases d)"

definition find_user :: "ident \<Rightarrow> db \<Rightarrow> User option" where
  "find_user i d = find (\<lambda>u. user_id u = i) (users d)"

definition find_asset :: "ident \<Rightarrow> db \<Rightarrow> Asset option" where
  "find_asset i d = find (\<lambda>a. asset_id a = i) (assets d)"

definition find_asset_by_serial :: "string \<Rightarrow> db \<Rightarrow> Asset option" where
  "find_asset_by_serial s d = find (\<lambda>a. asset_serialNumber a = s) (assets d)"

definition find_transfer :: "ident \<Rightarrow> db \<Rightarrow> Transfer option" where
  "find_transfer i d = find (\<lambda>t. transfer_id t = i) (transfers d)"

definition find_transfer_by_code :: "string \<Rightarrow> db \<Rightarrow> Transfer option" where
  "find_transfer_by_code c d = find (\<lambda>t. transfer_transferCode t = c) (transfers d)"

definition find_assignment :: "ident \<Rightarrow> db \<Rightarrow> Assignment option" where
  "find_assignment i d = find (\<lambda>a. assignment_id a = i) (assignments d)"

text \<open>\<^verbatim>\<open>include: { assignments: { where: { returnedAt: null } } }\<close>\<close>

definition open_assignments :: "ident \<Rightarrow> db \<Rightarrow> Assignment list" where
  "open_assignments aid d =
     filter (\<lambda>g. assignment_assetId g = aid \<and> assignment_returnedAt g = None) (assignments d)"

text \<open>\<^verbatim>\<open>include: { transferItems: true }\<close> on a transfer and on an asset, and
  \<^verbatim>\<open>include: { expenditures: true }\<close>.\<close>

definition items_of_transfer :: "ident \<Rightarrow> db \<Rightarrow> TransferItem list" where
  "items_of_transfer tid d = filter (\<lambda>it. item_transferId it = tid) (transferItems d)"

definition items_of_asset :: "ident \<Rightarrow> db \<Rightarrow> TransferItem list" where
  "items_of_asset aid d = filter (\<lambda>it. item_assetId it = aid) (transferItems d)"

definition expenditures_of_asset :: "ident \<Rightarrow> db \<Rightarrow> Expenditure list" where
  "expenditures_of_asset aid d = filter (\<lambda>e. expenditure_assetId e = aid) (expenditures d)"

definition assignments_of_asset :: "ident \<Rightarrow> db \<Rightarrow> Assignment list" where
  "assignments_of_asset aid d = filter (\<lambda>g. assignment_assetId g = aid) (assignments d)"

text \<open>\<^verbatim>\<open>asset.update({ where: { id }, data })\<close>: the row must exist; the schema's
  \<^verbatim>\<open>@updatedAt\<close> refreshes \<open>updatedAt\<close> on every update; \<^verbatim>\<open>serialNumber\<close> is
  \<^verbatim>\<open>@unique\<close>, so a changed serial number must not be taken.\<close>

definition asset_update :: "ident \<Rightarrow> (Asset \<Rightarrow> Asset) \<Rightarrow> datetime \<Rightarrow> db \<Rightarrow> PrismaError + db" where
  "asset_update i f now d =
     (case find_asset i d of
        None \<Rightarrow> Inl P2025
      | Some a \<Rightarrow>
          if asset_serialNumber (f a) \<noteq> asset_serialNumber a
             \<and> find_asset_by_serial (asset_serialNumber (f a)) d \<noteq> None
          then Inl P2002
          else Inr (d\<lparr>assets :=
                 map (\<lambda>b. if asset_id b = i then (f b)\<lparr>asset_updatedAt := now\<rparr> else b) (assets d)\<rparr>))"

definition transfer_update :: "ident \<Rightarrow> (Transfer \<Rightarrow> Transfer) \<Rightarrow> datetime \<Rightarrow> db \<Rightarrow> PrismaError + db" where
  "transfer_update i f now d =
     (case find_transfer i d of
        None \<Rightarrow> Inl P2025
      | Some t \<Rightarrow>
          Inr (d\<lparr>transfers :=
            map (\<lambda>t. if transfer_id t = i then (f t)\<lparr>transfer_updatedAt := now\<rparr> else t) (transfers d)\<rparr>))"

definition assignment_update ::
  "ident \<Rightarrow> (Assignment \<Rightarrow> Assignment) \<Rightarrow> datetime \<Rightarrow> db \<Rightarrow> PrismaError + db" where
  "assignment_update i f now d =
     (case find_assignment i d of
        None \<Rightarrow> Inl P2025
      | Some g \<Rightarrow>
          Inr (d\<lparr>assignments :=
            map (\<lambda>g. if assignment_id g = i then (f g)\<lparr>assignment_updatedAt := now\<rparr> else g)
              (assignments d)\<rparr>))"

text \<open>\<^verbatim>\<open>transfer.create\<close>: status defaults to PENDING, \<^verbatim>\<open>transferCode\<close> is
  \<^verbatim>\<open>@unique\<close>, \<^verbatim>\<open>reason\<close> and \<^verbatim>\<open>notes\<close> are texts.\<close>

definition transfer_create ::
  "string \<Rightarrow> ident \<Rightarrow> ident \<Rightarrow> string \<Rightarrow> string option \<Rightarrow> ident \<Rightarrow> datetime \<Rightarrow> db
     \<Rightarrow> PrismaError + Transfer \<times> db" where
  "transfer_create code fromB toB reason notes creator now d =
     (if \<not> text_ok reason \<or> \<not> text_opt_ok notes then Inl InvalidValue
      else if find_transfer_by_code code d \<noteq> None then Inl P2002
      else
        let t = \<lparr>transfer_id = next_id d, transfer_transferCode = code,
                 transfer_fromBaseId = fromB, transfer_toBaseId = toB,
                 transfer_status = PENDING, transfer_reason = reason, transfer_notes = notes,
                 transfer_createdById = creator, transfer_approvedById = None,
                 transfer_approvedAt = None, transfer_completedAt = None,
                 transfer_createdAt = now, transfer_updatedAt = now\<rparr>
        in Inr (t, d\<lparr>transfers := transfers d @ [t], next_id := Suc (next_id d)\<rparr>))"

text \<open>\<^verbatim>\<open>transferItem.create\<close>: \<^verbatim>\<open>quantity Int\<close>, \<^verbatim>\<open>notes String?\<close> and
  \<^verbatim>\<open>@@unique([transferId, assetId])\<close>.\<close>

definition transferItem_create ::
  "ident \<Rightarrow> ident \<Rightarrow> int \<Rightarrow> string option \<Rightarrow> db \<Rightarrow> PrismaError + db" where
  "transferItem_create tid aid qty notes d =
     (if \<not> int32 qty \<or> \<not> text_opt_ok notes then Inl InvalidValue
      else if \<exists>it \<in> set (transferItems d). item_transferId it = tid \<and> item_assetId it = aid
      then Inl P2002
      else Inr (d\<lparr>transferItems := transferItems d @
                  [\<lparr>item_id = next_id d, item_transferId = tid, item_assetId = aid,
                    item_quantity = qty, item_notes = notes\<rparr>],
                next_id := Suc (next_id d)\<rparr>))"

section \<open>Transfers (transferController.js)\<close>

record TransferAssetReq =
  req_assetId :: ident
  req_quantity :: "int option"
  req_notes :: "string option"

record CreateTransferBody =
  ct_fromBaseId :: ident
  ct_toBaseId :: ident
  ct_reason :: string
  ct_notes :: "string option"
  ct_assets :: "TransferAssetReq list"

text \<open>\<^verbatim>\<open>asset.quantity || 1\<close>\<close>

definition quantity_or_1 :: "int option \<Rightarrow> int" where
  "quantity_or_1 q = (case q of None \<Rightarrow> 1 | Some n \<Rightarrow> if n = 0 then 1 else n)"

text \<open>The part of \<^verbatim>\<open>createTransfer\<close> before \<^verbatim>\<open>prisma.$transaction\<close>: the early
  returns, in the order of the source. \<open>None\<close>: no early return, the handler goes on to
  the transaction.\<close>

definition createTransfer_validate :: "User \<Rightarrow> CreateTransferBody \<Rightarrow> db \<Rightarrow> Response option" where
  "createTransfer_validate user body d =
     (if ct_fromBaseId body = ct_toBaseId body
      then Some (Response 400 ''Source and destination bases must be different'')
      else if user_role user = BASE_COMMANDER \<and> user_baseId user \<noteq> Some (ct_fromBaseId body)
      then Some (Response 403 ''Base commanders can only transfer from their assigned base'')
      else if find_base (ct_fromBaseId body) d = None \<or> find_base (ct_toBaseId body) d = None
      then Some (Response 404 ''One or both bases not found'')
      else
        let assetIds = map req_assetId (ct_assets body);
            availableAssets =
              filter (\<lambda>a. asset_id a \<in> set assetIds \<and> asset_baseId a = ct_fromBaseId body
                           \<and> asset_status a = AVAILABLE) (assets d)
        in if length availableAssets \<noteq> length assetIds
           then Some (Response 400 ''Some assets are not available for transfer'')
           else None)"

text \<open>The \<^verbatim>\<open>while (!isUnique)\<close> loop. \<^verbatim>\<open>generateTransferCode\<close> reads the clock and
  a random source; the codes it returns, in order, are the list argument. The loop ends
  at the first code no transfer has; \<open>None\<close>: the loop is still running when the list
  is used up.\<close>

fun unique_code :: "string list \<Rightarrow> db \<Rightarrow> string option" where
  "unique_code [] d = None"
| "unique_code (c # cs) d =
     (if find_transfer_by_code c d = None then Some c else unique_code cs d)"

text \<open>\<^verbatim>\<open>for (const asset of assets) { transferItem.create; asset.update }\<close>\<close>

fun create_items :: "ident \<Rightarrow> datetime \<Rightarrow> TransferAssetReq list \<Rightarrow> db \<Rightarrow> PrismaError + db" where
  "create_items tid now [] d = Inr d"
| "create_items tid now (r # rs) d =
     (case transferItem_create tid (req_assetId r) (quantity_or_1 (req_quantity r)) (req_notes r) d of
        Inl e \<Rightarrow> Inl e
      | Inr d1 \<Rightarrow>
          (case asset_update (req_assetId r) (\<lambda>a. a\<lparr>asset_status := IN_TRANSIT\<rparr>) now d1 of
             Inl e \<Rightarrow> Inl e
           | Inr d2 \<Rightarrow> create_items tid now rs d2))"

text \<open>The callback given to \<^verbatim>\<open>prisma.$transaction\<close>.\<close>

definition createTransfer_body ::
  "User \<Rightarrow> CreateTransferBody \<Rightarrow> string list \<Rightarrow> datetime \<Rightarrow> db
     \<Rightarrow> (PrismaError + Transfer \<times> db) option" where
  "createTransfer_body user body codes now d =
     (case unique_code codes d of
        None \<Rightarrow> None
      | Some code \<Rightarrow>
          Some (case transfer_create code (ct_fromBaseId body) (ct_toBaseId body) (ct_reason body)
                       (ct_notes body) (user_id user) now d of
                  Inl e \<Rightarrow> Inl e
                | Inr (t, d1) \<Rightarrow>
                    (case create_items (transfer_id t) now (ct_assets body) d1 of
                       Inl e \<Rightarrow> Inl e
                     | Inr d2 \<Rightarrow> Inr (t, d2))))"

text \<open>The transaction and what follows it. A callback that throws rolls the
  transaction back: the store is the one the transaction started from, and the
  handler's \<^verbatim>\<open>catch\<close> answers 500.\<close>

definition createTransfer_tx ::
  "User \<Rightarrow> CreateTransferBody \<Rightarrow> string list \<Rightarrow> datetime \<Rightarrow> db \<Rightarrow> (Response \<times> db) option" where
  "createTransfer_tx user body codes now d =
     (case createTransfer_body user body codes now d of
        None \<Rightarrow> None
      | Some (Inl e) \<Rightarrow> Some (Response 500 ''Server error creating transfer'', d)
      | Some (Inr (t, d')) \<Rightarrow> Some (Response 201 ''Transfer created successfully'', d'))"

definition createTransfer ::
  "User \<Rightarrow> CreateTransferBody \<Rightarrow> string list \<Rightarrow> datetime \<Rightarrow> db \<Rightarrow> (Response \<times> db) option" where
  "createTransfer user body codes now d =
     (case createTransfer_validate user body d of
        Some r \<Rightarrow> Some (r, d)
      | None \<Rightarrow> createTransfer_tx user body codes now d)"

text \<open>The rows that a request asks for are such that the store admits them.\<close>

definition transfer_columns_ok :: "CreateTransferBody \<Rightarrow> bool" where
  "transfer_columns_ok body \<longleftrightarrow>
     text_ok (ct_reason body) \<and> text_opt_ok (ct_notes body)
     \<and> (\<forall>r \<in> set (ct_assets body). int32 (quantity_or_1 (req_quantity r))
           \<and> text_opt_ok (req_notes r))"

text \<open>\<^verbatim>\<open>for (const item of transfer.transferItems) await tx.asset.update({ where:
  { id: item.assetId }, data })\<close>, the loop of \<^verbatim>\<open>completeTransfer\<close> and of
  \<^verbatim>\<open>cancelTransfer\<close>; \<open>f\<close> is the \<^verbatim>\<open>data\<close> of the update.\<close>

fun update_item_assets ::
  "(Asset \<Rightarrow> Asset) \<Rightarrow> datetime \<Rightarrow> TransferItem list \<Rightarrow> db \<Rightarrow> PrismaError + db" where
  "update_item_assets f now [] d = Inr d"
| "update_item_assets f now (it # its) d =
     (case asset_update (item_assetId it) f now d of
        Inl e \<Rightarrow> Inl e
      | Inr d1 \<Rightarrow> update_item_assets f now its d1)"

definition approveTransfer ::
  "User \<Rightarrow> ident \<Rightarrow> string option \<Rightarrow> datetime \<Rightarrow> db \<Rightarrow> Response \<times> db" where
  "approveTransfer user i notes now d =
     (case find_transfer i d of
        None \<Rightarrow> (Response 404 ''Transfer not found'', d)
      | Some transfer \<Rightarrow>
          if transfer_status transfer \<noteq> PENDING
          then (Response 400 ''Transfer is not in pending status'', d)
          else if user_role user = BASE_COMMANDER
                  \<and> user_baseId user \<noteq> Some (transfer_toBaseId transfer)
          then (Response 403 ''Base commanders can only approve transfers to their base'', d)
          else
            (case transfer_update i
                    (\<lambda>t. t\<lparr>transfer_status := APPROVED,
                            transfer_approvedById := Some (user_id user),
                            transfer_approvedAt := Some now,
                            transfer_notes := str_or notes (transfer_notes transfer)\<rparr>) now d of
               Inl e \<Rightarrow> (Response 500 ''Server error approving transfer'', d)
             | Inr d' \<Rightarrow> (Response 200 ''Transfer approved successfully'', d')))"

definition completeTransfer_body :: "Transfer \<Rightarrow> TransferItem list \<Rightarrow> datetime \<Rightarrow> db \<Rightarrow> PrismaError + db" where
  "completeTransfer_body transfer items now d =
     (case transfer_update (transfer_id transfer)
             (\<lambda>t. t\<lparr>transfer_status := COMPLETED, transfer_completedAt := Some now\<rparr>) now d of
        Inl e \<Rightarrow> Inl e
      | Inr d1 \<Rightarrow>
          update_item_assets
            (\<lambda>a. a\<lparr>asset_baseId := transfer_toBaseId transfer, asset_status := AVAILABLE\<rparr>)
            now items d1)"

definition completeTransfer :: "User \<Rightarrow> ident \<Rightarrow> datetime \<Rightarrow> db \<Rightarrow> Response \<times> db" where
  "completeTransfer user i now d =
     (case find_transfer i d of
        None \<Rightarrow> (Response 404 ''Transfer not found'', d)
      | Some transfer \<Rightarrow>
          if transfer_status transfer \<noteq> APPROVED
          then (Response 400 ''Transfer must be approved before completion'', d)
          else if user_role user = BASE_COMMANDER
                  \<and> user_baseId user \<noteq> Some (transfer_toBaseId transfer)
          then (Response 403 ''Base commanders can only complete transfers to their base'', d)
          else
            (case completeTransfer_body transfer (items_of_transfer i d) now d of
               Inl e \<Rightarrow> (Response 500 ''Server error completing transfer'', d)
             | Inr d' \<Rightarrow> (Response 200 ''Transfer completed successfully'', d')))"

text \<open>\<^verbatim>\<open>reason ? `${transfer.notes || ''}\nCancellation reason: ${reason}`.trim()
  : transfer.notes\<close>\<close>

definition cancel_notes :: "string option \<Rightarrow> string option \<Rightarrow> string option" where
  "cancel_notes reason old =
     (case reason of
        None \<Rightarrow> old
      | Some r \<Rightarrow>
          if r = [] then old
          else Some (trim (str_or_empty old @ CHR 0x0A # ''Cancellation reason: '' @ r)))"

definition cancelTransfer_body ::
  "Transfer \<Rightarrow> TransferItem list \<Rightarrow> string option \<Rightarrow> datetime \<Rightarrow> db \<Rightarrow> PrismaError + db" where
  "cancelTransfer_body transfer items reason now d =
     (case transfer_update (transfer_id transfer)
             (\<lambda>t. t\<lparr>transfer_status := CANCELLED,
                     transfer_notes := cancel_notes reason (transfer_notes transfer)\<rparr>) now d of
        Inl e \<Rightarrow> Inl e
      | Inr d1 \<Rightarrow> update_item_assets (\<lambda>a. a\<lparr>asset_status := AVAILABLE\<rparr>) now items d1)"

definition cancelTransfer ::
  "User \<Rightarrow> ident \<Rightarrow> string option \<Rightarrow> datetime \<Rightarrow> db \<Rightarrow> Response \<times> db" where
  "cancelTransfer user i reason now d =
     (case find_transfer i d of
        None \<Rightarrow> (Response 404 ''Transfer not found'', d)
      | Some transfer \<Rightarrow>
          if transfer_status transfer \<notin> set [PENDING, APPROVED]
          then (Response 400 ''Transfer cannot be cancelled in current status'', d)
          else if user_role user = BASE_COMMANDER
                  \<and> user_baseId user \<noteq> Some (transfer_fromBaseId transfer)
          then (Response 403 ''Base commanders can only cancel transfers from their base'', d)
          else
            (case cancelTransfer_body transfer (items_of_transfer i d) reason now d of
               Inl e \<Rightarrow> (Response 500 ''Server error cancelling transfer'', d)
             | Inr d' \<Rightarrow> (Response 200 ''Transfer cancelled successfully'', d')))"

section \<open>Base scoping shared by the create handlers\<close>

text \<open>\<^verbatim>\<open>let targetBaseId = baseId; if (user.role === 'BASE_COMMANDER' && user.baseId)
  targetBaseId = user.baseId;\<close> (the same three lines in \<^verbatim>\<open>createAsset\<close>,
  \<^verbatim>\<open>createAssignment\<close> and \<^verbatim>\<open>createExpenditure\<close>).\<close>

definition targetBaseId :: "User \<Rightarrow> ident \<Rightarrow> ident" where
  "targetBaseId user baseId =
     (if user_role user = BASE_COMMANDER \<and> user_baseId user \<noteq> None
      then the (user_baseId user) else baseId)"

section \<open>Assignments (assignmentController.js)\<close>

record CreateAssignmentBody =
  ca_assetId :: ident
  ca_assignedToId :: ident
  ca_baseId :: ident
  ca_purpose :: string
  ca_notes :: "string option"

definition assignment_create ::
  "ident \<Rightarrow> ident \<Rightarrow> ident \<Rightarrow> string \<Rightarrow> string option \<Rightarrow> ident \<Rightarrow> datetime \<Rightarrow> db \<Rightarrow> db" where
  "assignment_create aid uid bid purpose notes creator now d =
     d\<lparr>assignments := assignments d @
          [\<lparr>assignment_id = next_id d, assignment_assetId = aid, assignment_assignedToId = uid,
            assignment_baseId = bid, assignment_assignedAt = now, assignment_returnedAt = None,
            assignment_purpose = purpose, assignment_notes = notes,
            assignment_createdById = creator, assignment_createdAt = now,
            assignment_updatedAt = now\<rparr>],
       next_id := Suc (next_id d)\<rparr>"

definition createAssignment_body ::
  "User \<Rightarrow> CreateAssignmentBody \<Rightarrow> ident \<Rightarrow> datetime \<Rightarrow> db \<Rightarrow> PrismaError + db" where
  "createAssignment_body user body tb now d =
     asset_update (ca_assetId body) (\<lambda>a. a\<lparr>asset_status := ASSIGNED\<rparr>) now
       (assignment_create (ca_assetId body) (ca_assignedToId body) tb (ca_purpose body)
          (ca_notes body) (user_id user) now d)"

definition createAssignment ::
  "User \<Rightarrow> CreateAssignmentBody \<Rightarrow> datetime \<Rightarrow> db \<Rightarrow> Response \<times> db" where
  "createAssignment user body now d =
     (let tb = targetBaseId user (ca_baseId body) in
      case find_asset (ca_assetId body) d of
        None \<Rightarrow> (Response 404 ''Asset not found'', d)
      | Some asset \<Rightarrow>
          if asset_baseId asset \<noteq> tb
          then (Response 400 ''Asset is not at the specified base'', d)
          else if asset_status asset \<noteq> AVAILABLE
          then (Response 400 ''Asset is not available for assignment'', d)
          else if length (open_assignments (ca_assetId body) d) > 0
          then (Response 400 ''Asset is already assigned to someone else'', d)
          else
            (case find_user (ca_assignedToId body) d of
               None \<Rightarrow> (Response 404 ''User to assign asset to not found'', d)
             | Some assignedUser \<Rightarrow>
                 if user_baseId assignedUser \<noteq> Some tb
                 then (Response 400 ''User is not at the same base as the asset'', d)
                 else
                   (case createAssignment_body user body tb now d of
                      Inl e \<Rightarrow> (Response 500 ''Server error creating assignment'', d)
                    | Inr d' \<Rightarrow> (Response 201 ''Asset assigned successfully'', d'))))"

text \<open>\<^verbatim>\<open>let newStatus = 'AVAILABLE'; if (condition === 'DAMAGED' || condition ===
  'NEEDS_MAINTENANCE') ... else if (condition === 'DECOMMISSIONED') ...\<close>\<close>

definition newStatus :: "string option \<Rightarrow> AssetStatus" where
  "newStatus condition =
     (if condition = Some ''DAMAGED'' \<or> condition = Some ''NEEDS_MAINTENANCE'' then MAINTENANCE
      else if condition = Some ''DECOMMISSIONED'' then DECOMMISSIONED
      else AVAILABLE)"

text \<open>\<^verbatim>\<open>notes ? `${assignment.notes || ''}\nReturn notes: ${notes}`.trim()
  : assignment.notes\<close>\<close>

definition return_notes :: "string option \<Rightarrow> string option \<Rightarrow> string option" where
  "return_notes notes old =
     (case notes of
        None \<Rightarrow> old
      | Some n \<Rightarrow>
          if n = [] then old
          else Some (trim (str_or_empty old @ CHR 0x0A # ''Return notes: '' @ n)))"

definition returnAssignment_body ::
  "Assignment \<Rightarrow> string option \<Rightarrow> string option \<Rightarrow> datetime \<Rightarrow> db \<Rightarrow> PrismaError + db" where
  "returnAssignment_body assignment notes condition now d =
     (case assignment_update (assignment_id assignment)
             (\<lambda>g. g\<lparr>assignment_returnedAt := Some now,
                     assignment_notes := return_notes notes (assignment_notes assignment)\<rparr>) now d of
        Inl e \<Rightarrow> Inl e
      | Inr d1 \<Rightarrow>
          asset_update (assignment_assetId assignment)
            (\<lambda>a. a\<lparr>asset_status := newStatus condition\<rparr>) now d1)"

text \<open>\<^verbatim>\<open>assignment.findFirst({ where: whereClause })\<close>, where a base commander with a
  base only sees the assignments of that base.\<close>

definition find_assignment_scoped :: "User \<Rightarrow> ident \<Rightarrow> db \<Rightarrow> Assignment option" where
  "find_assignment_scoped user i d =
     find (\<lambda>g. assignment_id g = i
                \<and> (user_role user = BASE_COMMANDER \<and> user_baseId user \<noteq> None
                     \<longrightarrow> Some (assignment_baseId g) = user_baseId user))
       (assignments d)"

definition returnAssignment ::
  "User \<Rightarrow> ident \<Rightarrow> string option \<Rightarrow> string option \<Rightarrow> datetime \<Rightarrow> db \<Rightarrow> Response \<times> db" where
  "returnAssignment user i notes condition now d =
     (case find_assignment_scoped user i d of
        None \<Rightarrow> (Response 404 ''Assignment not found'', d)
      | Some assignment \<Rightarrow>
          if assignment_returnedAt assignment \<noteq> None
          then (Response 400 ''Asset has already been returned'', d)
          else
            (case returnAssignment_body assignment notes condition now d of
               Inl e \<Rightarrow> (Response 500 ''Server error returning asset'', d)
             | Inr d' \<Rightarrow> (Response 200 ''Asset returned successfully'', d')))"

section \<open>Expenditures (expenditureController.js)\<close>

record CreateExpenditureBody =
  ce_assetId :: ident
  ce_baseId :: ident
  ce_quantity :: "int option"
  ce_reason :: string
  ce_description :: "string option"
  ce_expendedAt :: "DateInput option"

text \<open>\<^verbatim>\<open>quantity = 1\<close> in the destructuring, then \<^verbatim>\<open>parseInt(quantity)\<close>; the
  validation layer admits integers only, on which \<^verbatim>\<open>parseInt\<close> changes nothing.\<close>

definition quantity_default :: "int option \<Rightarrow> int" where
  "quantity_default q = (case q of None \<Rightarrow> 1 | Some n \<Rightarrow> n)"

text \<open>\<^verbatim>\<open>expenditure.create\<close>: \<^verbatim>\<open>quantity Int\<close>, \<^verbatim>\<open>reason String\<close> and
  \<^verbatim>\<open>description String?\<close>.\<close>

definition expenditure_create ::
  "ident \<Rightarrow> ident \<Rightarrow> int \<Rightarrow> string \<Rightarrow> string option \<Rightarrow> datetime \<Rightarrow> ident \<Rightarrow> datetime \<Rightarrow> db
     \<Rightarrow> PrismaError + db" where
  "expenditure_create aid bid qty reason descr expendedAt creator now d =
     (if \<not> int32 qty \<or> \<not> text_ok reason \<or> \<not> text_opt_ok descr then Inl InvalidValue
      else Inr (d\<lparr>expenditures := expenditures d @
                  [\<lparr>expenditure_id = next_id d, expenditure_assetId = aid,
                    expenditure_baseId = bid, expenditure_quantity = qty,
                    expenditure_reason = reason, expenditure_description = descr,
                    expenditure_expendedAt = expendedAt, expenditure_createdById = creator,
                    expenditure_createdAt = now, expenditure_updatedAt = now\<rparr>],
                next_id := Suc (next_id d)\<rparr>))"

definition expenditure_columns_ok :: "CreateExpenditureBody \<Rightarrow> bool" where
  "expenditure_columns_ok body \<longleftrightarrow>
     int32 (quantity_default (ce_quantity body)) \<and> text_ok (ce_reason body)
     \<and> text_opt_ok (ce_description body)"

text \<open>\<^verbatim>\<open>`${assignment.notes || ''}\nAsset expended - automatic return`.trim()\<close>\<close>

definition expended_notes :: "string option \<Rightarrow> string" where
  "expended_notes old = trim (str_or_empty old @ CHR 0x0A # ''Asset expended - automatic return'')"

text \<open>\<^verbatim>\<open>for (const assignment of asset.assignments) await tx.assignment.update(...)\<close>\<close>

fun auto_return :: "datetime \<Rightarrow> Assignment list \<Rightarrow> db \<Rightarrow> PrismaError + db" where
  "auto_return now [] d = Inr d"
| "auto_return now (g # gs) d =
     (case assignment_update (assignment_id g)
             (\<lambda>h. h\<lparr>assignment_returnedAt := Some now,
                     assignment_notes := Some (expended_notes (assignment_notes g))\<rparr>) now d of
        Inl e \<Rightarrow> Inl e
      | Inr d1 \<Rightarrow> auto_return now gs d1)"

definition createExpenditure_body ::
  "User \<Rightarrow> CreateExpenditureBody \<Rightarrow> ident \<Rightarrow> Assignment list \<Rightarrow> datetime \<Rightarrow> db \<Rightarrow> PrismaError + db" where
  "createExpenditure_body user body tb open_asg now d =
     (case expenditure_create (ce_assetId body) tb (quantity_default (ce_quantity body))
             (ce_reason body) (ce_description body)
             (case date_or_null (ce_expendedAt body) of Some t \<Rightarrow> t | None \<Rightarrow> now)
             (user_id user) now d of
        Inl e \<Rightarrow> Inl e
      | Inr d0 \<Rightarrow>
          (case asset_update (ce_assetId body) (\<lambda>a. a\<lparr>asset_status := EXPENDED\<rparr>) now d0 of
             Inl e \<Rightarrow> Inl e
           | Inr d1 \<Rightarrow> auto_return now open_asg d1))"

definition createExpenditure ::
  "User \<Rightarrow> CreateExpenditureBody \<Rightarrow> datetime \<Rightarrow> db \<Rightarrow> Response \<times> db" where
  "createExpenditure user body now d =
     (let tb = targetBaseId user (ce_baseId body) in
      case find_asset (ce_assetId body) d of
        None \<Rightarrow> (Response 404 ''Asset not found'', d)
      | Some asset \<Rightarrow>
          if asset_baseId asset \<noteq> tb
          then (Response 400 ''Asset is not at the specified base'', d)
          else if asset_status asset = EXPENDED
          then (Response 400 ''Asset has already been expended'', d)
          else
            (case createExpenditure_body user body tb (open_assignments (ce_assetId body) d) now d of
               Inl e \<Rightarrow> (Response 500 ''Server error creating expenditure'', d)
             | Inr d' \<Rightarrow> (Response 201 ''Expenditure recorded successfully'', d')))"

section \<open>Assets (assetController.js)\<close>

record CreateAssetBody =
  cab_serialNumber :: string
  cab_name :: string
  cab_description :: "string option"
  cab_equipmentType :: EquipmentType
  cab_baseId :: ident
  cab_value :: "rat option"
  cab_acquisitionDate :: "DateInput option"
  cab_warrantyExpiry :: "DateInput option"

text \<open>\<^verbatim>\<open>value ? parseFloat(value) : null\<close>: a missing value and zero give null.\<close>

definition value_or_null :: "rat option \<Rightarrow> rat option" where
  "value_or_null v = (case v of None \<Rightarrow> None | Some x \<Rightarrow> if x = 0 then None else Some x)"

text \<open>\<^verbatim>\<open>asset.create\<close>: status defaults to AVAILABLE, no purchase; the serial number
  is \<^verbatim>\<open>@unique\<close>; \<^verbatim>\<open>serialNumber\<close>, \<^verbatim>\<open>name\<close> and \<^verbatim>\<open>description\<close> are texts and
  \<^verbatim>\<open>value\<close> is a \<^verbatim>\<open>Decimal\<close>. The \<^verbatim>\<open>data\<close> of the call is
  \<^verbatim>\<open>value ? parseFloat(value) : null\<close> and \<^verbatim>\<open>date ? new Date(date) : null\<close> for the
  two dates.\<close>

definition asset_columns_ok :: "CreateAssetBody \<Rightarrow> bool" where
  "asset_columns_ok body \<longleftrightarrow>
     text_ok (cab_serialNumber body) \<and> text_ok (cab_name body)
     \<and> text_opt_ok (cab_description body) \<and> decimal_opt_ok (value_or_null (cab_value body))"

definition asset_create :: "CreateAssetBody \<Rightarrow> ident \<Rightarrow> datetime \<Rightarrow> db \<Rightarrow> PrismaError + db" where
  "asset_create body tb now d =
     (if \<not> asset_columns_ok body then Inl InvalidValue
      else if find_asset_by_serial (cab_serialNumber body) d \<noteq> None then Inl P2002
      else Inr (d\<lparr>assets := assets d @
                  [\<lparr>asset_id = next_id d, asset_serialNumber = cab_serialNumber body,
                    asset_name = cab_name body, asset_description = cab_description body,
                    asset_equipmentType = cab_equipmentType body, asset_status = AVAILABLE,
                    asset_baseId = tb, asset_purchaseId = None,
                    asset_value = map_option decimal_round (value_or_null (cab_value body)),
                    asset_acquisitionDate = date_or_null (cab_acquisitionDate body),
                    asset_warrantyExpiry = date_or_null (cab_warrantyExpiry body),
                    asset_createdAt = now, asset_updatedAt = now\<rparr>],
                next_id := Suc (next_id d)\<rparr>))"

definition createAsset :: "User \<Rightarrow> CreateAssetBody \<Rightarrow> datetime \<Rightarrow> db \<Rightarrow> Response \<times> db" where
  "createAsset user body now d =
     (let tb = targetBaseId user (cab_baseId body) in
      case find_base tb d of
        None \<Rightarrow> (Response 404 ''Base not found'', d)
      | Some base \<Rightarrow>
          if find_asset_by_serial (cab_serialNumber body) d \<noteq> None
          then (Response 400 ''Asset with this serial number already exists'', d)
          else
            (case asset_create body tb now d of
               Inl e \<Rightarrow>
                 if e = P2002
                 then (Response 400 ''Asset with this serial number already exists'', d)
                 else (Response 500 ''Server error creating asset'', d)
             | Inr d' \<Rightarrow> (Response 201 ''Asset created successfully'', d')))"

text \<open>The body of an update: every field may be absent (\<^verbatim>\<open>undefined\<close>).\<close>

record UpdateAssetBody =
  ua_serialNumber :: "string option"
  ua_name :: "string option"
  ua_description :: "string option"
  ua_equipmentType :: "EquipmentType option"
  ua_value :: "rat option"
  ua_acquisitionDate :: "DateInput option"
  ua_warrantyExpiry :: "DateInput option"
  ua_status :: "AssetStatus option"

text \<open>\<^verbatim>\<open>updateData\<close>: one assignment for each field that is not \<^verbatim>\<open>undefined\<close>;
  the value and the dates are converted as in \<^verbatim>\<open>createAsset\<close>, so a value 0 and a
  date 0 clear the column. The value is stored as the \<^verbatim>\<open>Decimal\<close> column keeps it.\<close>

definition updateData :: "UpdateAssetBody \<Rightarrow> Asset \<Rightarrow> Asset" where
  "updateData body a =
     (let a1 = (case ua_serialNumber body of None \<Rightarrow> a | Some s \<Rightarrow> a\<lparr>asset_serialNumber := s\<rparr>);
          a2 = (case ua_name body of None \<Rightarrow> a1 | Some n \<Rightarrow> a1\<lparr>asset_name := n\<rparr>);
          a3 = (case ua_description body of None \<Rightarrow> a2 | Some x \<Rightarrow> a2\<lparr>asset_description := Some x\<rparr>);
          a4 = (case ua_equipmentType body of None \<Rightarrow> a3 | Some e \<Rightarrow> a3\<lparr>asset_equipmentType := e\<rparr>);
          a5 = (case ua_value body of None \<Rightarrow> a4
                | Some v \<Rightarrow> a4\<lparr>asset_value := map_option decimal_round (value_or_null (Some v))\<rparr>);
          a6 = (case ua_acquisitionDate body of None \<Rightarrow> a5
                | Some t \<Rightarrow> a5\<lparr>asset_acquisitionDate := date_or_null (Some t)\<rparr>);
          a7 = (case ua_warrantyExpiry body of None \<Rightarrow> a6
                | Some t \<Rightarrow> a6\<lparr>asset_warrantyExpiry := date_or_null (Some t)\<rparr>)
      in (case ua_status body of None \<Rightarrow> a7 | Some st \<Rightarrow> a7\<lparr>asset_status := st\<rparr>))"

text \<open>The columns of \<^verbatim>\<open>updateData\<close> that the store checks.\<close>

definition updateData_ok :: "UpdateAssetBody \<Rightarrow> bool" where
  "updateData_ok body \<longleftrightarrow>
     text_opt_ok (ua_serialNumber body) \<and> text_opt_ok (ua_name body)
     \<and> text_opt_ok (ua_description body) \<and> decimal_opt_ok (value_or_null (ua_value body))"

text \<open>\<^verbatim>\<open>asset.findFirst({ where: whereClause })\<close> with the base commander's scope.\<close>

definition find_asset_scoped :: "User \<Rightarrow> ident \<Rightarrow> db \<Rightarrow> Asset option" where
  "find_asset_scoped user i d =
     find (\<lambda>a. asset_id a = i
                \<and> (user_role user = BASE_COMMANDER \<and> user_baseId user \<noteq> None
                     \<longrightarrow> Some (asset_baseId a) = user_baseId user))
       (assets d)"

definition updateAsset :: "User \<Rightarrow> ident \<Rightarrow> UpdateAssetBody \<Rightarrow> datetime \<Rightarrow> db \<Rightarrow> Response \<times> db" where
  "updateAsset user i body now d =
     (case find_asset_scoped user i d of
        None \<Rightarrow> (Response 404 ''Asset not found'', d)
      | Some existingAsset \<Rightarrow>
          if ua_serialNumber body \<noteq> None \<and> ua_serialNumber body \<noteq> Some []
             \<and> ua_serialNumber body \<noteq> Some (asset_serialNumber existingAsset)
             \<and> find_asset_by_serial (the (ua_serialNumber body)) d \<noteq> None
          then (Response 400 ''Asset with this serial number already exists'', d)
          else
            (case (if updateData_ok body then asset_update i (updateData body) now d
                   else Inl InvalidValue) of
               Inl e \<Rightarrow>
                 if e = P2002
                 then (Response 400 ''Asset with this serial number already exists'', d)
                 else (Response 500 ''Server error updating asset'', d)
             | Inr d' \<Rightarrow> (Response 200 ''Asset updated successfully'', d')))"

text \<open>\<^verbatim>\<open>asset.delete({ where: { id } })\<close>. \<^verbatim>\<open>Assignment.asset\<close>,
  \<^verbatim>\<open>TransferItem.asset\<close> and \<^verbatim>\<open>Expenditure.asset\<close> are required relations declared
  without \<^verbatim>\<open>onDelete\<close>, for which the schema language's default is \<^verbatim>\<open>Restrict\<close>:
  the store refuses to delete an asset that any such row references.\<close>

definition asset_delete :: "ident \<Rightarrow> db \<Rightarrow> PrismaError + db" where
  "asset_delete i d =
     (if find_asset i d = None then Inl P2025
      else if assignments_of_asset i d \<noteq> [] \<or> items_of_asset i d \<noteq> []
              \<or> expenditures_of_asset i d \<noteq> []
      then Inl P2003
      else Inr (d\<lparr>assets := filter (\<lambda>a. asset_id a \<noteq> i) (assets d)\<rparr>))"

definition deleteAsset :: "User \<Rightarrow> ident \<Rightarrow> db \<Rightarrow> Response \<times> db" where
  "deleteAsset user i d =
     (case find_asset i d of
        None \<Rightarrow> (Response 404 ''Asset not found'', d)
      | Some asset \<Rightarrow>
          if length (open_assignments i d) > 0
          then (Response 400 ''Cannot delete asset with active assignments'', d)
          else if length (items_of_asset i d) > 0
          then (Response 400 ''Cannot delete asset with transfer history'', d)
          else if length (expenditures_of_asset i d) > 0
          then (Response 400 ''Cannot delete asset with expenditure records'', d)
          else
            (case asset_delete i d of
               Inl e \<Rightarrow> (Response 500 ''Server error deleting asset'', d)
             | Inr d' \<Rightarrow> (Response 200 ''Asset deleted successfully'', d')))"

section \<open>Two requests interleaved\<close>

text \<open>Every \<^verbatim>\<open>await\<close> of a handler is a point where another request may run. The
  schedule below is the one in which two \<^verbatim>\<open>createTransfer\<close> requests both finish
  their reads (everything before \<^verbatim>\<open>prisma.$transaction\<close>) on the same store, and
  their transactions then run one after the other.\<close>

definition createTransfer_interleaved ::
  "User \<Rightarrow> CreateTransferBody \<Rightarrow> string list \<Rightarrow> User \<Rightarrow> CreateTransferBody \<Rightarrow> string list
     \<Rightarrow> datetime \<Rightarrow> db \<Rightarrow> (Response \<times> Response \<times> db) option" where
  "createTransfer_interleaved u1 b1 c1 u2 b2 c2 now d =
     (let v1 = createTransfer_validate u1 b1 d;
          v2 = createTransfer_validate u2 b2 d
      in case (case v1 of Some r \<Rightarrow> Some (r, d) | None \<Rightarrow> createTransfer_tx u1 b1 c1 now d) of
           None \<Rightarrow> None
         | Some (r1, d1) \<Rightarrow>
             (case (case v2 of Some r \<Rightarrow> Some (r, d1) | None \<Rightarrow> createTransfer_tx u2 b2 c2 now d1) of
                None \<Rightarrow> None
              | Some (r2, d2) \<Rightarrow> Some (r1, r2, d2)))"

section \<open>Requests served one after the other\<close>

text \<open>The routes of transfers, assignments, expenditures and assets that write to the
  store, each with the caller and the parameters its handler reads.\<close>

datatype Request =
    CreateTransfer User CreateTransferBody "string list"
  | ApproveTransfer User ident "string option"
  | CompleteTransfer User ident
  | CancelTransfer User ident "string option"
  | CreateAssignment User CreateAssignmentBody
  | ReturnAssignment User ident "string option" "string option"
  | CreateExpenditure User CreateExpenditureBody
  | CreateAsset User CreateAssetBody
  | UpdateAsset User ident UpdateAssetBody
  | DeleteAsset User ident

text \<open>\<^verbatim>\<open>authorize(...roles)\<close> (middleware/auth.js), for an authenticated caller.\<close>

definition authorize :: "Role list \<Rightarrow> User \<Rightarrow> Response option" where
  "authorize roles user =
     (if user_role user \<in> set roles then None
      else Some (Response 403 ''Access denied. Insufficient permissions.''))"

text \<open>A route: the role check, then the handler.\<close>

definition route ::
  "Role list \<Rightarrow> User \<Rightarrow> db \<Rightarrow> (Response \<times> db) option \<Rightarrow> (Response \<times> db) option" where
  "route roles user d answer =
     (case authorize roles user of Some r \<Rightarrow> Some (r, d) | None \<Rightarrow> answer)"

fun handle :: "Request \<Rightarrow> datetime \<Rightarrow> db \<Rightarrow> (Response \<times> db) option" where
  "handle (CreateTransfer u b cs) now d =
     route [ADMIN, BASE_COMMANDER, LOGISTICS_OFFICER] u d (createTransfer u b cs now d)"
| "handle (ApproveTransfer u i n) now d =
     route [ADMIN, BASE_COMMANDER] u d (Some (approveTransfer u i n now d))"
| "handle (CompleteTransfer u i) now d =
     route [ADMIN, BASE_COMMANDER] u d (Some (completeTransfer u i now d))"
| "handle (CancelTransfer u i r) now d =
     route [ADMIN, BASE_COMMANDER] u d (Some (cancelTransfer u i r now d))"
| "handle (CreateAssignment u b) now d =
     route [ADMIN, BASE_COMMANDER] u d (Some (createAssignment u b now d))"
| "handle (ReturnAssignment u i n c) now d =
     route [ADMIN, BASE_COMMANDER] u d (Some (returnAssignment u i n c now d))"
| "handle (CreateExpenditure u b) now d =
     route [ADMIN, BASE_COMMANDER] u d (Some (createExpenditure u b now d))"
| "handle (CreateAsset u b) now d =
     route [ADMIN, BASE_COMMANDER] u d (Some (createAsset u b now d))"
| "handle (UpdateAsset u i b) now d =
     route [ADMIN, BASE_COMMANDER] u d (Some (updateAsset u i b now d))"
| "handle (DeleteAsset u i) now d =
     route [ADMIN] u d (Some (deleteAsset u i d))"

text \<open>A list of requests, each with the time it is served at, run in order, each to its
  end before the next starts: the answers and the store left.\<close>

fun serve :: "(Request \<times> datetime) list \<Rightarrow> db \<Rightarrow> (Response list \<times> db) option" where
  "serve [] d = Some ([], d)"
| "serve (q # qs) d =
     (case handle (fst q) (snd q) d of
        None \<Rightarrow> None
      | Some (res, d1) \<Rightarrow>
          (case serve qs d1 of
             None \<Rightarrow> None
           | Some (rs, d2) \<Rightarrow> Some (res # rs, d2)))"

text \<open>An asset update that asks for the status EXPENDED.\<close>

fun writes_expended :: "Request \<Rightarrow> bool" where
  "writes_expended (UpdateAsset u i b) = (ua_status b = Some EXPENDED)"
| "writes_expended _ = False"

section \<open>Integrity of the store\<close>

text \<open>What the database guarantees of every store the handlers run on: primary keys
  are unique, identifiers already handed out lie below the counter, and a transfer
  item belongs to a transfer of the store.\<close>

definition wf_db :: "db \<Rightarrow> bool" where
  "wf_db d \<longleftrightarrow>
     distinct (map asset_id (assets d))
     \<and> distinct (map assignment_id (assignments d))
     \<and> (\<forall>a \<in> set (assets d). asset_id a < next_id d)
     \<and> (\<forall>g \<in> set (assignments d). assignment_id g < next_id d)
     \<and> (\<forall>t \<in> set (transfers d). transfer_id t < next_id d)
     \<and> (\<forall>it \<in> set (transferItems d). item_transferId it \<in> transfer_id ` set (transfers d))"

text \<open>The key columns of the tables the integrity is about.\<close>

definition table_keys :: "db \<Rightarrow> ident list \<times> ident list \<times> ident list \<times> ident list" where
  "table_keys d =
     (map asset_id (assets d), map assignment_id (assignments d),
      map transfer_id (transfers d), map item_transferId (transferItems d))"

text \<open>The data model's rule that an asset has at most one open assignment.\<close>

definition one_open_assignment :: "db \<Rightarrow> bool" where
  "one_open_assignment d \<longleftrightarrow>
     (\<forall>g \<in> set (assignments d). length (open_assignments (assignment_assetId g) d) \<le> 1)"

text \<open>The rule that an expended asset is not actively assigned, for the asset \<open>aid\<close>.\<close>

definition expended_unassigned :: "ident \<Rightarrow> db \<Rightarrow> bool" where
  "expended_unassigned aid d \<longleftrightarrow>
     (\<forall>b \<in> set (assets d). asset_id b = aid \<and> asset_status b = EXPENDED
         \<longrightarrow> open_assignments aid d = [])"

section \<open>A sample store\<close>

definition base_X :: Base where
  "base_X = \<lparr>base_id = 1, base_name = ''Fort Liberty'', base_code = ''FL001'',
             base_location = ''North Carolina, USA'', base_isActive = True\<rparr>"

definition base_Y :: Base where
  "base_Y = \<lparr>base_id = 2, base_name = ''Camp Pendleton'', base_code = ''CP002'',
             base_location = ''California, USA'', base_isActive = True\<rparr>"

definition admin :: User where
  "admin = \<lparr>user_id = 3, user_email = ''admin@military.gov'', user_username = ''admin'',
            user_role = ADMIN, user_baseId = None, user_isActive = True\<rparr>"

definition cmd_X :: User where
  "cmd_X = \<lparr>user_id = 4, user_email = ''commander.fl@military.gov'', user_username = ''cmd_fl'',
            user_role = BASE_COMMANDER, user_baseId = Some 1, user_isActive = True\<rparr>"

definition cmd_Y :: User where
  "cmd_Y = \<lparr>user_id = 5, user_email = ''commander.cp@military.gov'', user_username = ''cmd_cp'',
            user_role = BASE_COMMANDER, user_baseId = Some 2, user_isActive = True\<rparr>"

definition log_X :: User where
  "log_X = \<lparr>user_id = 6, user_email = ''logistics.fl@military.gov'', user_username = ''log_fl'',
            user_role = LOGISTICS_OFFICER, user_baseId = Some 1, user_isActive = True\<rparr>"

definition mk_asset :: "ident \<Rightarrow> string \<Rightarrow> AssetStatus \<Rightarrow> ident \<Rightarrow> Asset" where
  "mk_asset i serial st b =
     \<lparr>asset_id = i, asset_serialNumber = serial, asset_name = ''M1151 HMMWV'',
      asset_description = None, asset_equipmentType = VEHICLE, asset_status = st,
      asset_baseId = b, asset_purchaseId = None, asset_value = None,
      asset_acquisitionDate = None, asset_warrantyExpiry = None,
      asset_createdAt = 1, asset_updatedAt = 1\<rparr>"

definition mk_assignment :: "ident \<Rightarrow> ident \<Rightarrow> datetime option \<Rightarrow> Assignment" where
  "mk_assignment i aid ret =
     \<lparr>assignment_id = i, assignment_assetId = aid, assignment_assignedToId = 6,
      assignment_baseId = 1, assignment_assignedAt = 2, assignment_returnedAt = ret,
      assignment_purpose = ''training'', assignment_notes = None,
      assignment_createdById = 4, assignment_createdAt = 2, assignment_updatedAt = 2\<rparr>"

text \<open>Assets 10 and 11 are available at base X; 12 is assigned, with the open
  assignment 20; 13 is decommissioned after the closed assignment 21; 14 is expended.\<close>

definition sample_db :: db where
  "sample_db =
     \<lparr>bases = [base_X, base_Y],
      users = [admin, cmd_X, cmd_Y, log_X],
      assets = [mk_asset 10 ''VH-001'' AVAILABLE 1, mk_asset 11 ''VH-002'' AVAILABLE 1,
                mk_asset 12 ''WP-001'' ASSIGNED 1, mk_asset 13 ''AM-001'' DECOMMISSIONED 1,
                mk_asset 14 ''AM-002'' EXPENDED 1],
      transfers = [],
      transferItems = [],
      assignments = [mk_assignment 20 12 None, mk_assignment 21 13 (Some 3)],
      expenditures = [],
      next_id = 30\<rparr>"

definition transfer_req :: "ident list \<Rightarrow> ident \<Rightarrow> ident \<Rightarrow> CreateTransferBody" where
  "transfer_req ids fromB toB =
     \<lparr>ct_fromBaseId = fromB, ct_toBaseId = toB, ct_reason = ''redeployment'', ct_notes = None,
      ct_assets = map (\<lambda>i. \<lparr>req_assetId = i, req_quantity = None, req_notes = None\<rparr>) ids\<rparr>"

text \<open>A request for the assets 10 and 11 whose second quantity is not an \<^verbatim>\<open>Int\<close>.\<close>

definition overflow_transfer_req :: CreateTransferBody where
  "overflow_transfer_req =
     \<lparr>ct_fromBaseId = 1, ct_toBaseId = 2, ct_reason = ''redeployment'', ct_notes = None,
      ct_assets = [\<lparr>req_assetId = 10, req_quantity = None, req_notes = None\<rparr>,
                   \<lparr>req_assetId = 11, req_quantity = Some 2147483648, req_notes = None\<rparr>]\<rparr>"

definition assignment_req :: "ident \<Rightarrow> ident \<Rightarrow> ident \<Rightarrow> CreateAssignmentBody" where
  "assignment_req aid uid b =
     \<lparr>ca_assetId = aid, ca_assignedToId = uid, ca_baseId = b, ca_purpose = ''training'',
      ca_notes = None\<rparr>"

definition expenditure_req :: "ident \<Rightarrow> ident \<Rightarrow> CreateExpenditureBody" where
  "expenditure_req aid b =
     \<lparr>ce_assetId = aid, ce_baseId = b, ce_quantity = None, ce_reason = ''destroyed in exercise'',
      ce_description = None, ce_expendedAt = None\<rparr>"

definition asset_req :: "string \<Rightarrow> ident \<Rightarrow> CreateAssetBody" where
  "asset_req serial b =
     \<lparr>cab_serialNumber = serial, cab_name = ''M4A1 Carbine'', cab_description = None,
      cab_equipmentType = WEAPON, cab_baseId = b, cab_value = None,
      cab_acquisitionDate = None, cab_warrantyExpiry = None\<rparr>"

definition status_update :: "AssetStatus \<Rightarrow> UpdateAssetBody" where
  "status_update st =
     \<lparr>ua_serialNumber = None, ua_name = None, ua_description = None, ua_equipmentType = None,
      ua_value = None, ua_acquisitionDate = None, ua_warrantyExpiry = None,
      ua_status = Some st\<rparr>"

text \<open>Asset 10 in two transfers, one after the other: the commander of X requests its
  transfer to Y (transfer 30), the administrator sets the asset AVAILABLE again with an
  asset update, and a second transfer of the asset to Y (transfer 32) is requested,
  approved and completed. Transfer 30 is still PENDING then.\<close>

definition moved_requests :: "(Request \<times> datetime) list" where
  "moved_requests =
     [(CreateTransfer cmd_X (transfer_req [10] 1 2) [''TRF-A''], 5),
      (UpdateAsset admin 10 (status_update AVAILABLE), 6),
      (CreateTransfer cmd_X (transfer_req [10] 1 2) [''TRF-B''], 7),
      (ApproveTransfer cmd_Y 32 None, 8),
      (CompleteTransfer admin 32, 9)]"

definition moved_db :: db where
  "moved_db = snd (the (serve moved_requests sample_db))"

text \<open>Asset 12 expended, set AVAILABLE again by an asset update, assigned, and set
  EXPENDED by a second asset update.\<close>

definition reexpended_requests :: "(Request \<times> datetime) list" where
  "reexpended_requests =
     [(CreateExpenditure admin (expenditure_req 12 1), 7),
      (UpdateAsset admin 12 (status_update AVAILABLE), 8),
      (CreateAssignment admin (assignment_req 12 6 1), 9),
      (UpdateAsset admin 12 (status_update EXPENDED), 10)]"

text \<open>Two requests for an expended asset 12: an assignment and a transfer.\<close>

definition later_requests :: "(Request \<times> datetime) list" where
  "later_requests =
     [(CreateAssignment admin (assignment_req 12 6 1), 8),
      (CreateTransfer cmd_X (transfer_req [12] 1 2) [''TRF-A''], 9)]"

text \<open>A transfer of the assets 10 and 11 from base X to base Y, requested by the
  commander of X (store \<open>trip_d1\<close>), approved by the commander of Y (\<open>trip_d2\<close>) and
  completed by the administrator (\<open>trip_d3\<close>).\<close>

definition trip_d1 :: db where
  "trip_d1 = snd (the (createTransfer cmd_X (transfer_req [10, 11] 1 2) [''TRF-A''] 5 sample_db))"

definition trip_id :: ident where
  "trip_id = transfer_id (last (transfers trip_d1))"



section \<open>Properties\<close>

subsection \<open>Store operations\<close>

lemma find_map_same:
  assumes "\<And>x. P (g x) = P x"
  shows "find P (map g xs) = map_option g (find P xs)"
  using assms by (induction xs) auto

lemma asset_update_Inr:
  "asset_update i f now d = Inr d' \<Longrightarrow>
     d' = d\<lparr>assets := map (\<lambda>b. if asset_id b = i then (f b)\<lparr>asset_updatedAt := now\<rparr> else b) (assets d)\<rparr>"
  by (auto simp: asset_update_def split: option.splits if_splits)

lemma asset_update_found:
  "asset_update i f now d = Inr d' \<Longrightarrow> find_asset i d \<noteq> None"
  by (auto simp: asset_update_def split: option.splits if_splits)

lemma asset_update_succeeds:
  assumes "find_asset i d \<noteq> None" "\<And>a. asset_serialNumber (f a) = asset_serialNumber a"
  shows "asset_update i f now d =
     Inr (d\<lparr>assets := map (\<lambda>b. if asset_id b = i then (f b)\<lparr>asset_updatedAt := now\<rparr> else b) (assets d)\<rparr>)"
  using assms by (auto simp: asset_update_def split: option.splits)

lemma find_asset_map:
  assumes "\<And>b. asset_id (g b) = asset_id b"
  shows "find_asset j (d\<lparr>assets := map g (assets d)\<rparr>) = map_option g (find_asset j d)"
  using assms by (simp add: find_asset_def find_map_same)

lemma transfer_update_Inr:
  "transfer_update i f now d = Inr d' \<Longrightarrow>
     d' = d\<lparr>transfers :=
            map (\<lambda>t. if transfer_id t = i then (f t)\<lparr>transfer_updatedAt := now\<rparr> else t) (transfers d)\<rparr>"
  by (auto simp: transfer_update_def split: option.splits)

lemma transfer_update_succeeds:
  "find_transfer i d \<noteq> None \<Longrightarrow>
   transfer_update i f now d =
     Inr (d\<lparr>transfers :=
            map (\<lambda>t. if transfer_id t = i then (f t)\<lparr>transfer_updatedAt := now\<rparr> else t) (transfers d)\<rparr>)"
  by (auto simp: transfer_update_def split: option.splits)

lemma assignment_update_Inr:
  "assignment_update i f now d = Inr d' \<Longrightarrow>
     d' = d\<lparr>assignments :=
            map (\<lambda>g. if assignment_id g = i then (f g)\<lparr>assignment_updatedAt := now\<rparr> else g)
              (assignments d)\<rparr>"
  by (auto simp: assignment_update_def split: option.splits)

lemma assignment_update_succeeds:
  "find_assignment i d \<noteq> None \<Longrightarrow>
   assignment_update i f now d =
     Inr (d\<lparr>assignments :=
            map (\<lambda>g. if assignment_id g = i then (f g)\<lparr>assignment_updatedAt := now\<rparr> else g)
              (assignments d)\<rparr>)"
  by (auto simp: assignment_update_def split: option.splits)

text \<open>The loop of \<^verbatim>\<open>completeTransfer\<close> and \<^verbatim>\<open>cancelTransfer\<close>: when it ends without
  an error it has rewritten exactly the rows of the items' assets.\<close>

lemma update_item_assets_Inr:
  assumes "update_item_assets f now its d = Inr d'"
    and "\<And>b. asset_id (f b) = asset_id b"
    and "\<And>b. (f ((f b)\<lparr>asset_updatedAt := now\<rparr>))\<lparr>asset_updatedAt := now\<rparr> = (f b)\<lparr>asset_updatedAt := now\<rparr>"
  shows "d' = d\<lparr>assets := map (\<lambda>b. if asset_id b \<in> item_assetId ` set its
                                  then (f b)\<lparr>asset_updatedAt := now\<rparr> else b) (assets d)\<rparr>"
  using assms
proof (induction its arbitrary: d)
  case Nil
  then show ?case by simp
next
  case (Cons it its)
  from Cons.prems(1) obtain d1 where d1: "asset_update (item_assetId it) f now d = Inr d1"
    and rest: "update_item_assets f now its d1 = Inr d'"
    by (auto split: sum.splits)
  note IH = Cons.IH[OF rest Cons.prems(2,3)]
  show ?case
    unfolding IH asset_update_Inr[OF d1]
    using Cons.prems(2,3) by (auto simp: o_def intro!: arg_cong[where f="\<lambda>x. d\<lparr>assets := x\<rparr>"])
qed

lemma update_item_assets_found:
  assumes "update_item_assets f now its d = Inr d'"
    and "\<And>b. asset_id (f b) = asset_id b"
  shows "\<forall>it\<in>set its. find_asset (item_assetId it) d \<noteq> None"
  using assms
proof (induction its arbitrary: d)
  case Nil
  then show ?case by simp
next
  case (Cons it its)
  from Cons.prems(1) obtain d1 where d1: "asset_update (item_assetId it) f now d = Inr d1"
    and rest: "update_item_assets f now its d1 = Inr d'"
    by (auto split: sum.splits)
  let ?g = "\<lambda>b. if asset_id b = item_assetId it then (f b)\<lparr>asset_updatedAt := now\<rparr> else b"
  have g: "\<And>b. asset_id (?g b) = asset_id b" using Cons.prems(2) by simp
  have "\<forall>it'\<in>set its. find_asset (item_assetId it') d1 \<noteq> None"
    by (rule Cons.IH[OF rest Cons.prems(2)])
  then have "\<forall>it'\<in>set its. find_asset (item_assetId it') d \<noteq> None"
    unfolding asset_update_Inr[OF d1] by (simp add: find_asset_map[of ?g, OF g])
  with asset_update_found[OF d1] show ?case by simp
qed

lemma update_item_assets_succeeds:
  assumes "\<forall>it\<in>set its. find_asset (item_assetId it) d \<noteq> None"
    and "\<And>a. asset_serialNumber (f a) = asset_serialNumber a"
    and "\<And>b. asset_id (f b) = asset_id b"
  shows "\<exists>d'. update_item_assets f now its d = Inr d'"
  using assms
proof (induction its arbitrary: d)
  case Nil
  then show ?case by simp
next
  case (Cons it its)
  let ?g = "\<lambda>b. if asset_id b = item_assetId it then (f b)\<lparr>asset_updatedAt := now\<rparr> else b"
  let ?d1 = "d\<lparr>assets := map ?g (assets d)\<rparr>"
  have u: "asset_update (item_assetId it) f now d = Inr ?d1"
    using Cons.prems by (intro asset_update_succeeds) auto
  have g: "\<And>b. asset_id (?g b) = asset_id b" using Cons.prems(3) by simp
  have "\<forall>it'\<in>set its. find_asset (item_assetId it') ?d1 \<noteq> None"
    using Cons.prems(1) by (simp add: find_asset_map[of ?g, OF g])
  from Cons.IH[OF this Cons.prems(2,3)] u show ?case by simp
qed

text \<open>What a successful \<^verbatim>\<open>createAssignment\<close> appends.\<close>

lemma createAssignment_ok:
  assumes "createAssignment user body now d = (res, d')" and "res_status res = 201"
  shows "\<exists>g. assignments d' = assignments d @ [g]
           \<and> assignment_baseId g = targetBaseId user (ca_baseId body)"
  using assms
  by (auto simp: createAssignment_def Let_def createAssignment_body_def assignment_create_def
      dest!: asset_update_Inr split: option.splits if_splits sum.splits)

subsection \<open>Creating a transfer: the availability check and the transaction\<close>

text \<open>The check \<^verbatim>\<open>availableAssets.length !== assetIds.length\<close> compares two
  lengths. Asset identifiers are unique, so equal lengths mean that the requested
  identifiers are pairwise different and that each of them names an available asset of
  the source base.\<close>

lemma find_distinct_key:
  assumes "distinct (map key xs)" and "a \<in> set xs"
  shows "find (\<lambda>b. key b = key a) xs = Some a"
  using assms by (induction xs) (auto simp: image_iff)

lemma count_available:
  assumes d: "distinct (map asset_id xs)"
    and l: "length (filter (\<lambda>a. asset_id a \<in> set ids \<and> P a) xs) = length ids"
  shows "distinct ids \<and> (\<forall>i\<in>set ids. \<exists>a\<in>set xs. asset_id a = i \<and> P a)"
proof -
  define F where "F = filter (\<lambda>a. asset_id a \<in> set ids \<and> P a) xs"
  define S where "S = set (map asset_id F)"
  have dF: "distinct (map asset_id F)" unfolding F_def using d by (rule distinct_map_filter)
  have sub: "S \<subseteq> set ids" unfolding S_def F_def by auto
  have cS: "card S = length ids"
    unfolding S_def using distinct_card[OF dF] l by (simp add: F_def)
  have "card S \<le> card (set ids)" using sub by (intro card_mono) auto
  with cS card_length[of ids] have ce: "card (set ids) = length ids" by simp
  then have "distinct ids" by (rule card_distinct)
  moreover have eq: "S = set ids"
    using sub cS ce by (intro card_subset_eq) auto
  have "\<forall>i\<in>set ids. \<exists>a\<in>set xs. asset_id a = i \<and> P a"
  proof
    fix i assume "i \<in> set ids"
    with eq have "i \<in> S" by simp
    then show "\<exists>a\<in>set xs. asset_id a = i \<and> P a"
      unfolding S_def F_def by auto
  qed
  ultimately show ?thesis by simp
qed

lemma validate_None:
  assumes "wf_db d" and "createTransfer_validate user body d = None"
  shows "ct_fromBaseId body \<noteq> ct_toBaseId body"
    and "\<not> (user_role user = BASE_COMMANDER \<and> user_baseId user \<noteq> Some (ct_fromBaseId body))"
    and "find_base (ct_fromBaseId body) d \<noteq> None" and "find_base (ct_toBaseId body) d \<noteq> None"
    and "distinct (map req_assetId (ct_assets body))"
    and "\<forall>r\<in>set (ct_assets body). \<exists>a. find_asset (req_assetId r) d = Some a
            \<and> asset_status a = AVAILABLE \<and> asset_baseId a = ct_fromBaseId body"
proof -
  from assms(2) have 1: "ct_fromBaseId body \<noteq> ct_toBaseId body"
    and 2: "\<not> (user_role user = BASE_COMMANDER \<and> user_baseId user \<noteq> Some (ct_fromBaseId body))"
    and 3: "find_base (ct_fromBaseId body) d \<noteq> None" "find_base (ct_toBaseId body) d \<noteq> None"
    and 4: "length (filter (\<lambda>a. asset_id a \<in> set (map req_assetId (ct_assets body))
              \<and> (asset_baseId a = ct_fromBaseId body \<and> asset_status a = AVAILABLE)) (assets d))
            = length (map req_assetId (ct_assets body))"
    by (auto simp: createTransfer_validate_def Let_def split: if_splits)
  from assms(1) have pk: "distinct (map asset_id (assets d))" by (simp add: wf_db_def)
  note c = count_available[OF pk 4]
  show "ct_fromBaseId body \<noteq> ct_toBaseId body" by (rule 1)
  show "\<not> (user_role user = BASE_COMMANDER \<and> user_baseId user \<noteq> Some (ct_fromBaseId body))"
    by (rule 2)
  show "find_base (ct_fromBaseId body) d \<noteq> None" "find_base (ct_toBaseId body) d \<noteq> None"
    by (rule 3)+
  show "distinct (map req_assetId (ct_assets body))" using c by simp
  show "\<forall>r\<in>set (ct_assets body). \<exists>a. find_asset (req_assetId r) d = Some a
            \<and> asset_status a = AVAILABLE \<and> asset_baseId a = ct_fromBaseId body"
  proof
    fix r assume "r \<in> set (ct_assets body)"
    with c obtain a where a: "a \<in> set (assets d)" "asset_id a = req_assetId r"
      "asset_baseId a = ct_fromBaseId body" "asset_status a = AVAILABLE" by auto
    from find_distinct_key[OF pk a(1)] a
    show "\<exists>a. find_asset (req_assetId r) d = Some a
            \<and> asset_status a = AVAILABLE \<and> asset_baseId a = ct_fromBaseId body"
      by (auto simp: find_asset_def)
  qed
qed

lemma transferItem_create_Inr:
  "transferItem_create tid aid qty notes d = Inr d' \<Longrightarrow>
     d' = d\<lparr>transferItems := transferItems d @
                  [\<lparr>item_id = next_id d, item_transferId = tid, item_assetId = aid,
                    item_quantity = qty, item_notes = notes\<rparr>],
            next_id := Suc (next_id d)\<rparr>"
  by (auto simp: transferItem_create_def split: if_splits)

lemma create_items_frame:
  assumes "create_items tid now rs d = Inr d'"
  shows "bases d' = bases d \<and> users d' = users d \<and> transfers d' = transfers d
       \<and> assignments d' = assignments d \<and> expenditures d' = expenditures d
       \<and> next_id d' = next_id d + length rs"
  using assms
proof (induction rs arbitrary: d)
  case Nil
  then show ?case by simp
next
  case (Cons r rs)
  from Cons.prems obtain d1 d2 where
    1: "transferItem_create tid (req_assetId r) (quantity_or_1 (req_quantity r)) (req_notes r) d = Inr d1"
    and 2: "asset_update (req_assetId r) (\<lambda>a. a\<lparr>asset_status := IN_TRANSIT\<rparr>) now d1 = Inr d2"
    and 3: "create_items tid now rs d2 = Inr d'"
    by (auto split: sum.splits)
  from Cons.IH[OF 3] show ?case
    unfolding asset_update_Inr[OF 2] transferItem_create_Inr[OF 1] by simp
qed

lemma create_items_assets:
  assumes "create_items tid now rs d = Inr d'"
  shows "assets d' = map (\<lambda>b. if asset_id b \<in> req_assetId ` set rs
                               then b\<lparr>asset_status := IN_TRANSIT, asset_updatedAt := now\<rparr> else b)
                        (assets d)"
  using assms
proof (induction rs arbitrary: d)
  case Nil
  then show ?case by simp
next
  case (Cons r rs)
  from Cons.prems obtain d1 d2 where
    1: "transferItem_create tid (req_assetId r) (quantity_or_1 (req_quantity r)) (req_notes r) d = Inr d1"
    and 2: "asset_update (req_assetId r) (\<lambda>a. a\<lparr>asset_status := IN_TRANSIT\<rparr>) now d1 = Inr d2"
    and 3: "create_items tid now rs d2 = Inr d'"
    by (auto split: sum.splits)
  from Cons.IH[OF 3] show ?case
    unfolding asset_update_Inr[OF 2] transferItem_create_Inr[OF 1] by (auto simp: o_def)
qed

lemma create_items_items:
  assumes "create_items tid now rs d = Inr d'"
  shows "\<exists>new. transferItems d' = transferItems d @ new
           \<and> map (\<lambda>it. (item_transferId it, item_assetId it, item_quantity it, item_notes it)) new
               = map (\<lambda>r. (tid, req_assetId r, quantity_or_1 (req_quantity r), req_notes r)) rs"
  using assms
proof (induction rs arbitrary: d)
  case Nil
  then show ?case by simp
next
  case (Cons r rs)
  from Cons.prems obtain d1 d2 where
    1: "transferItem_create tid (req_assetId r) (quantity_or_1 (req_quantity r)) (req_notes r) d = Inr d1"
    and 2: "asset_update (req_assetId r) (\<lambda>a. a\<lparr>asset_status := IN_TRANSIT\<rparr>) now d1 = Inr d2"
    and 3: "create_items tid now rs d2 = Inr d'"
    by (auto split: sum.splits)
  from Cons.IH[OF 3] obtain new where
    n: "transferItems d' = transferItems d2 @ new"
       "map (\<lambda>it. (item_transferId it, item_assetId it, item_quantity it, item_notes it)) new
               = map (\<lambda>r. (tid, req_assetId r, quantity_or_1 (req_quantity r), req_notes r)) rs"
    by blast
  let ?it = "\<lparr>item_id = next_id d, item_transferId = tid, item_assetId = req_assetId r,
                    item_quantity = quantity_or_1 (req_quantity r), item_notes = req_notes r\<rparr>"
  have "transferItems d' = transferItems d @ (?it # new)"
    using n(1) unfolding asset_update_Inr[OF 2] transferItem_create_Inr[OF 1] by simp
  moreover have "map (\<lambda>it. (item_transferId it, item_assetId it, item_quantity it, item_notes it)) (?it # new)
               = map (\<lambda>r. (tid, req_assetId r, quantity_or_1 (req_quantity r), req_notes r)) (r # rs)"
    using n(2) by simp
  ultimately show ?case by blast
qed

lemma unique_code_Some:
  "unique_code cs d = Some c \<Longrightarrow> c \<in> set cs \<and> find_transfer_by_code c d = None"
  by (induction cs) (auto split: if_splits)

lemma createTransfer_body_Inr:
  assumes "createTransfer_body user body codes now d = Some (Inr (t, d'))"
  shows "transfer_id t = next_id d \<and> transfer_status t = PENDING
       \<and> transfer_fromBaseId t = ct_fromBaseId body \<and> transfer_toBaseId t = ct_toBaseId body
       \<and> transfer_createdById t = user_id user
       \<and> transfer_transferCode t \<in> set codes \<and> find_transfer_by_code (transfer_transferCode t) d = None
       \<and> transfers d' = transfers d @ [t]
       \<and> bases d' = bases d \<and> users d' = users d
       \<and> assignments d' = assignments d \<and> expenditures d' = expenditures d
       \<and> next_id d' = Suc (next_id d + length (ct_assets body))
       \<and> assets d' = map (\<lambda>b. if asset_id b \<in> req_assetId ` set (ct_assets body)
                               then b\<lparr>asset_status := IN_TRANSIT, asset_updatedAt := now\<rparr> else b)
                        (assets d)
       \<and> (\<exists>new. transferItems d' = transferItems d @ new
           \<and> map (\<lambda>it. (item_transferId it, item_assetId it, item_quantity it, item_notes it)) new
               = map (\<lambda>r. (next_id d, req_assetId r, quantity_or_1 (req_quantity r), req_notes r))
                   (ct_assets body))"
proof -
  have uc: "unique_code cs d = Some c \<Longrightarrow> c \<in> set cs \<and> find_transfer_by_code c d = None" for cs c
    by (induction cs) (auto split: if_splits)
  from assms obtain code d1 where
    c: "unique_code codes d = Some code"
    and t: "transfer_create code (ct_fromBaseId body) (ct_toBaseId body) (ct_reason body)
                       (ct_notes body) (user_id user) now d = Inr (t, d1)"
    and i: "create_items (transfer_id t) now (ct_assets body) d1 = Inr d'"
    by (auto simp: createTransfer_body_def split: option.splits sum.splits)
  from t have t': "transfer_id t = next_id d" "transfer_status t = PENDING"
    "transfer_fromBaseId t = ct_fromBaseId body" "transfer_toBaseId t = ct_toBaseId body"
    "transfer_createdById t = user_id user" "transfer_transferCode t = code"
    and d1: "d1 = d\<lparr>transfers := transfers d @ [t], next_id := Suc (next_id d)\<rparr>"
    by (auto simp: transfer_create_def Let_def split: if_splits)
  from create_items_frame[OF i] create_items_assets[OF i] create_items_items[OF i] uc[OF c] t'
  show ?thesis unfolding d1 by simp
qed


text \<open>The loop goes through only if the store admits every item.\<close>

lemma create_items_columns:
  assumes "create_items tid now rs d = Inr d'"
  shows "\<forall>r\<in>set rs. int32 (quantity_or_1 (req_quantity r)) \<and> text_opt_ok (req_notes r)"
  using assms
proof (induction rs arbitrary: d)
  case Nil
  then show ?case by simp
next
  case (Cons r rs)
  from Cons.prems obtain d1 d2 where
    1: "transferItem_create tid (req_assetId r) (quantity_or_1 (req_quantity r)) (req_notes r) d = Inr d1"
    and 2: "asset_update (req_assetId r) (\<lambda>a. a\<lparr>asset_status := IN_TRANSIT\<rparr>) now d1 = Inr d2"
    and 3: "create_items tid now rs d2 = Inr d'"
    by (auto split: sum.splits)
  from 1 have "int32 (quantity_or_1 (req_quantity r)) \<and> text_opt_ok (req_notes r)"
    by (auto simp: transferItem_create_def split: if_splits)
  with Cons.IH[OF 3] show ?case by simp
qed

lemma createTransfer_body_columns:
  assumes "createTransfer_body user body codes now d = Some (Inr (t, d'))"
  shows "text_ok (ct_reason body) \<and> text_opt_ok (ct_notes body)
       \<and> (\<forall>r\<in>set (ct_assets body). int32 (quantity_or_1 (req_quantity r))
             \<and> text_opt_ok (req_notes r))"
proof -
  from assms obtain code d1 where
    t: "transfer_create code (ct_fromBaseId body) (ct_toBaseId body) (ct_reason body)
                       (ct_notes body) (user_id user) now d = Inr (t, d1)"
    and i: "create_items (transfer_id t) now (ct_assets body) d1 = Inr d'"
    by (auto simp: createTransfer_body_def split: option.splits sum.splits)
  from t have "text_ok (ct_reason body) \<and> text_opt_ok (ct_notes body)"
    by (auto simp: transfer_create_def split: if_splits)
  with create_items_columns[OF i] show ?thesis by simp
qed
subsection \<open>Approving and completing a transfer\<close>

lemma find_snoc:
  assumes "\<forall>y\<in>set xs. \<not> P y" and "P x"
  shows "find P (xs @ [x]) = Some x"
  using assms by (induction xs) auto




lemma wf_db_fresh:
  assumes "wf_db d"
  shows "\<forall>x\<in>set (transfers d). transfer_id x \<noteq> next_id d"
    and "\<forall>it\<in>set (transferItems d). item_transferId it \<noteq> next_id d"
proof -
  from assms have lt: "\<forall>x\<in>set (transfers d). transfer_id x < next_id d"
    and fk: "\<forall>it\<in>set (transferItems d). item_transferId it \<in> transfer_id ` set (transfers d)"
    by (simp_all add: wf_db_def)
  from lt show 1: "\<forall>x\<in>set (transfers d). transfer_id x \<noteq> next_id d" by auto
  show "\<forall>it\<in>set (transferItems d). item_transferId it \<noteq> next_id d"
  proof
    fix it assume "it \<in> set (transferItems d)"
    with fk obtain x where "x \<in> set (transfers d)" "item_transferId it = transfer_id x"
      by (auto simp: image_iff)
    with 1 show "item_transferId it \<noteq> next_id d" by simp
  qed
qed

subsection \<open>Evaluating the handlers on the sample store\<close>

lemmas store_defs =
  find_base_def find_user_def find_asset_def find_asset_by_serial_def find_transfer_def
  find_transfer_by_code_def find_assignment_def open_assignments_def items_of_transfer_def
  items_of_asset_def expenditures_of_asset_def assignments_of_asset_def asset_update_def
  transfer_update_def assignment_update_def transfer_create_def transferItem_create_def
  assignment_create_def expenditure_create_def asset_create_def asset_delete_def
  int32_def text_ok_def text_opt_ok_def decimal_opt_ok_def value_or_null_def date_or_null_def
  asset_columns_ok_def updateData_ok_def

lemmas sample_defs =
  sample_db_def mk_asset_def mk_assignment_def base_X_def base_Y_def admin_def cmd_X_def
  cmd_Y_def log_X_def transfer_req_def assignment_req_def expenditure_req_def asset_req_def
  status_update_def overflow_transfer_req_def

lemmas handler_defs =
  approveTransfer_def completeTransfer_def completeTransfer_body_def cancelTransfer_def
  cancelTransfer_body_def createAssignment_def createAssignment_body_def returnAssignment_def
  returnAssignment_body_def createExpenditure_def createExpenditure_body_def createAsset_def
  updateAsset_def updateData_def deleteAsset_def targetBaseId_def find_asset_scoped_def
  find_assignment_scoped_def quantity_default_def str_or_def route_def authorize_def

lemmas createTransfer_defs =
  createTransfer_def createTransfer_validate_def createTransfer_tx_def createTransfer_body_def
  quantity_or_1_def Let_def

lemma trip_d1_created:
  "createTransfer cmd_X (transfer_req [10, 11] 1 2) [''TRF-A''] 5 sample_db
     = Some (Response 201 ''Transfer created successfully'', trip_d1)"
proof -
  have "\<exists>d'. createTransfer cmd_X (transfer_req [10, 11] 1 2) [''TRF-A''] 5 sample_db
     = Some (Response 201 ''Transfer created successfully'', d')"
    by (simp add: createTransfer_defs store_defs sample_defs)
  then show ?thesis by (auto simp: trip_d1_def)
qed

lemma trip_d1_fields:
  "assets trip_d1 =
     [(mk_asset 10 ''VH-001'' IN_TRANSIT 1)\<lparr>asset_updatedAt := 5\<rparr>,
      (mk_asset 11 ''VH-002'' IN_TRANSIT 1)\<lparr>asset_updatedAt := 5\<rparr>,
      mk_asset 12 ''WP-001'' ASSIGNED 1, mk_asset 13 ''AM-001'' DECOMMISSIONED 1,
      mk_asset 14 ''AM-002'' EXPENDED 1]"
  "map (\<lambda>t. (transfer_id t, transfer_status t, transfer_fromBaseId t, transfer_toBaseId t))
     (transfers trip_d1) = [(30, PENDING, 1, 2)]"
  "map (\<lambda>it. (item_transferId it, item_assetId it)) (transferItems trip_d1) = [(30, 10), (30, 11)]"
  "trip_id = 30"
  by (simp_all add: trip_id_def trip_d1_def createTransfer_defs store_defs sample_defs)

text \<open>The transaction of \<^verbatim>\<open>createTransfer\<close>, run on any store: it either commits
  and the handler answers 201, or it rolls back and the handler answers 500 on the
  store it started from.\<close>

lemma createTransfer_tx_all_or_nothing:
  assumes "createTransfer_tx user body codes now d = Some (res, d')"
  shows "res = Response 201 ''Transfer created successfully''
       \<or> (res = Response 500 ''Server error creating transfer'' \<and> d' = d)"
  using assms by (auto simp: createTransfer_tx_def split: option.splits sum.splits)

text \<open>A rollback in the middle of the loop. The request passes the checks; its
  transaction writes the transfer, the first item and the status of asset 10, and then
  the store refuses the second item, whose quantity is not an \<^verbatim>\<open>Int\<close>. The handler
  answers 500 and the store is the one the request found.\<close>

lemma createTransfer_rollback_partway:
  "createTransfer_validate cmd_X overflow_transfer_req sample_db = None
   \<and> (\<exists>t d1 d2. transfer_create ''TRF-A'' 1 2 ''redeployment'' None (user_id cmd_X) 5 sample_db
                   = Inr (t, d1)
         \<and> create_items (transfer_id t) 5 (take 1 (ct_assets overflow_transfer_req)) d1 = Inr d2
         \<and> map transfer_status (transfers d2) = [PENDING]
         \<and> map item_assetId (transferItems d2) = [10]
         \<and> map asset_status (assets d2)
             = [IN_TRANSIT, AVAILABLE, ASSIGNED, DECOMMISSIONED, EXPENDED]
         \<and> create_items (transfer_id t) 5 (ct_assets overflow_transfer_req) d1
             = Inl InvalidValue)
   \<and> createTransfer cmd_X overflow_transfer_req [''TRF-A''] 5 sample_db
       = Some (Response 500 ''Server error creating transfer'', sample_db)"
  by (simp add: createTransfer_defs store_defs sample_defs)

text \<open>The code loop ends as soon as the generator returns a code no transfer has, so
  the handler answers whenever the candidate codes contain such a code.\<close>

lemma createTransfer_returns:
  assumes "\<exists>c\<in>set codes. find_transfer_by_code c d = None"
  shows "\<exists>res d'. createTransfer user body codes now d = Some (res, d')"
proof -
  have "\<exists>c. unique_code cs d = Some c" if "\<exists>c\<in>set cs. find_transfer_by_code c d = None" for cs
    using that by (induction cs) auto
  with assms obtain c where "unique_code codes d = Some c" by blast
  then show ?thesis
    by (auto simp: createTransfer_def createTransfer_tx_def createTransfer_body_def
        split: option.splits sum.splits)
qed

subsection \<open>Closing assignments\<close>

lemma starts_with_iff: "starts_with w s \<longleftrightarrow> take (length w) s = w \<and> length w \<le> length s"
  by (induction w s rule: starts_with.induct) auto

text \<open>A byte that occurs in none of the sequences stops the stripping.\<close>

lemma strip_stops:
  assumes "\<forall>w\<in>set ws. c \<notin> set w"
  shows "\<exists>k. strip ws (u @ c # v) = drop k u @ c # v"
proof (induction "length u" arbitrary: u rule: less_induct)
  case less
  show ?case
  proof (cases u)
    case Nil
    have "find (\<lambda>w. w \<noteq> [] \<and> starts_with w (c # v)) ws = None"
      using assms by (auto simp: find_None_iff neq_Nil_conv)
    then show ?thesis using Nil by simp
  next
    case (Cons x u')
    show ?thesis
    proof (cases "find (\<lambda>w. w \<noteq> [] \<and> starts_with w (u @ c # v)) ws")
      case None
      then have "strip ws (u @ c # v) = drop 0 u @ c # v" using Cons by simp
      then show ?thesis by blast
    next
      case (Some w)
      then have w: "w \<in> set ws" "w \<noteq> []" "starts_with w (u @ c # v)"
        by (auto simp: find_Some_iff)
      with assms have cw: "c \<notin> set w" by blast
      from w(3) have tk: "take (length w) (u @ c # v) = w" by (simp add: starts_with_iff)
      have le: "length w \<le> length u"
      proof (rule ccontr)
        assume "\<not> length w \<le> length u"
        then have "length u < length w" by simp
        then have "(take (length w) (u @ c # v)) ! length u = c" by (simp add: nth_append)
        with tk have "w ! length u = c" by simp
        with \<open>length u < length w\<close> have "c \<in> set w" by (metis nth_mem)
        with cw show False by simp
      qed
      have "strip ws (u @ c # v) = strip ws (drop (length w - 1) (u' @ c # v))"
        using Some Cons by simp
      also have "drop (length w - 1) (u' @ c # v) = drop (length w - 1) u' @ c # v"
        using le Cons by simp
      also have "drop (length w - 1) u' = drop (length w) u" using Cons w(2) by (cases w) simp_all
      finally have e: "strip ws (u @ c # v) = strip ws (drop (length w) u @ c # v)" .
      have "length (drop (length w) u) < length u" using w(2) Cons by (cases w) simp_all
      from less[OF this] obtain k where "strip ws (drop (length w) u @ c # v)
          = drop k (drop (length w) u) @ c # v" by blast
      with e have "strip ws (u @ c # v) = drop (k + length w) u @ c # v" by (simp add: add.commute)
      then show ?thesis by blast
    qed
  qed
qed

lemma trim_keeps_text:
  assumes "\<forall>w\<in>set white_space. c \<notin> set w" and "\<forall>w\<in>set white_space. e \<notin> set w"
  shows "\<exists>k. trim (u @ c # v @ [e]) = drop k u @ c # v @ [e]"
proof -
  from strip_stops[OF assms(1), of u "v @ [e]"] obtain k where
    k: "strip white_space (u @ c # v @ [e]) = drop k u @ c # v @ [e]" by blast
  have "\<forall>w\<in>set (map rev white_space). e \<notin> set w" using assms(2) by simp
  from strip_stops[OF this, of "[]" "rev v @ c # rev (drop k u)"]
  have "strip (map rev white_space) (e # rev v @ c # rev (drop k u)) = e # rev v @ c # rev (drop k u)"
    by simp
  then show ?thesis unfolding trim_def k by auto
qed

lemma expended_notes_text:
  "\<exists>p. expended_notes old = p @ ''Asset expended - automatic return''"
proof -
  have "expended_notes old
      = trim ((str_or_empty old @ [CHR 0x0A]) @ CHR ''A'' # ''sset expended - automatic retur'' @ [CHR ''n''])"
    by (simp add: expended_notes_def)
  moreover have "\<exists>k. trim ((str_or_empty old @ [CHR 0x0A]) @ CHR ''A'' # ''sset expended - automatic retur'' @ [CHR ''n''])
      = drop k (str_or_empty old @ [CHR 0x0A])
          @ CHR ''A'' # ''sset expended - automatic retur'' @ [CHR ''n'']"
    by (rule trim_keeps_text) (simp_all add: white_space_def)
  ultimately show ?thesis by auto
qed

lemma find_assignment_map:
  assumes "\<And>h. assignment_id (g h) = assignment_id h"
  shows "find_assignment j (d\<lparr>assignments := map g (assignments d)\<rparr>)
           = map_option g (find_assignment j d)"
  using assms by (simp add: find_assignment_def find_map_same)

lemma auto_return_succeeds:
  assumes "\<forall>g\<in>set gs. find_assignment (assignment_id g) d \<noteq> None"
  shows "\<exists>d'. auto_return now gs d = Inr d'"
  using assms
proof (induction gs arbitrary: d)
  case Nil
  then show ?case by simp
next
  case (Cons g gs)
  let ?u = "\<lambda>h. if assignment_id h = assignment_id g
              then h\<lparr>assignment_returnedAt := Some now,
                     assignment_notes := Some (expended_notes (assignment_notes g)),
                     assignment_updatedAt := now\<rparr> else h"
  let ?d1 = "d\<lparr>assignments := map ?u (assignments d)\<rparr>"
  have u: "assignment_update (assignment_id g)
             (\<lambda>h. h\<lparr>assignment_returnedAt := Some now,
                     assignment_notes := Some (expended_notes (assignment_notes g))\<rparr>) now d = Inr ?d1"
    using Cons.prems by (simp add: assignment_update_succeeds)
  have "\<forall>g'\<in>set gs. find_assignment (assignment_id g') ?d1 \<noteq> None"
    using Cons.prems by (simp add: find_assignment_map[of ?u])
  from Cons.IH[OF this] u show ?case by simp
qed

lemma auto_return_Inr:
  assumes "auto_return now gs d = Inr d'" and "distinct (map assignment_id gs)"
  shows "d' = d\<lparr>assignments :=
            map (\<lambda>h. case find (\<lambda>g. assignment_id g = assignment_id h) gs of
                       None \<Rightarrow> h
                     | Some g \<Rightarrow> h\<lparr>assignment_returnedAt := Some now,
                                   assignment_notes := Some (expended_notes (assignment_notes g)),
                                   assignment_updatedAt := now\<rparr>) (assignments d)\<rparr>"
  using assms
proof (induction gs arbitrary: d)
  case Nil
  then show ?case by simp
next
  case (Cons g gs)
  from Cons.prems(1) obtain d1 where
    u: "assignment_update (assignment_id g)
             (\<lambda>h. h\<lparr>assignment_returnedAt := Some now,
                     assignment_notes := Some (expended_notes (assignment_notes g))\<rparr>) now d = Inr d1"
    and rest: "auto_return now gs d1 = Inr d'"
    by (auto split: sum.splits)
  from Cons.prems(2) have dg: "distinct (map assignment_id gs)"
    and nin: "assignment_id g \<notin> assignment_id ` set gs" by auto
  have ng: "\<forall>g'\<in>set gs. assignment_id g' \<noteq> assignment_id g"
  proof
    fix g' assume "g' \<in> set gs"
    then have "assignment_id g' \<in> assignment_id ` set gs" by (rule imageI)
    with nin show "assignment_id g' \<noteq> assignment_id g" by metis
  qed
  from ng have nf: "find (\<lambda>g'. assignment_id g' = assignment_id g) gs = None"
    by (simp add: find_None_iff)
  show ?case
    unfolding Cons.IH[OF rest dg] assignment_update_Inr[OF u]
    using nf by (auto simp: o_def intro!: arg_cong[where f="\<lambda>x. d\<lparr>assignments := x\<rparr>"])
qed

lemma find_in_filter:
  assumes "distinct (map key xs)" and "h \<in> set xs"
  shows "find (\<lambda>g. key g = key h) (filter P xs) = (if P h then Some h else None)"
proof (cases "P h")
  case True
  have "distinct (map key (filter P xs))" using assms(1) by (rule distinct_map_filter)
  moreover have "h \<in> set (filter P xs)" using True assms(2) by simp
  ultimately show ?thesis using True by (simp add: find_distinct_key)
next
  case False
  have "\<forall>g\<in>set (filter P xs). key g \<noteq> key h"
  proof
    fix g assume g: "g \<in> set (filter P xs)"
    show "key g \<noteq> key h"
    proof
      assume "key g = key h"
      with assms g have "g = h" by (auto simp: distinct_map dest: inj_onD)
      with g False show False by simp
    qed
  qed
  then show ?thesis using False by (simp add: find_None_iff)
qed

text \<open>\<^verbatim>\<open>createAssignment\<close> refuses an asset that has an open assignment, so it keeps
  the rule that an asset has at most one.\<close>

lemma createAssignment_keeps_one_open:
  assumes inv: "one_open_assignment d" and r: "createAssignment user body now d = (res, d')"
  shows "one_open_assignment d'"
proof (cases "res_status res = 201")
  case False
  with r have "d' = d"
    by (auto simp: createAssignment_def Let_def split: option.splits if_splits sum.splits)
  with inv show ?thesis by simp
next
  case True
  with r obtain g where g: "assignments d' = assignments d @ [g]"
    "assignment_assetId g = ca_assetId body"
    and none: "open_assignments (ca_assetId body) d = []"
    by (auto simp: createAssignment_def Let_def createAssignment_body_def assignment_create_def
        dest!: asset_update_Inr split: option.splits if_splits sum.splits)
  have len: "length (open_assignments aid d') \<le> length (open_assignments aid d)
      + (if aid = ca_assetId body then 1 else 0)" for aid
    using g by (simp add: open_assignments_def)
  show ?thesis
    unfolding one_open_assignment_def
  proof
    fix h assume "h \<in> set (assignments d')"
    then consider "h \<in> set (assignments d)" | "h = g" using g by auto
    then show "length (open_assignments (assignment_assetId h) d') \<le> 1"
    proof cases
      case 1
      with inv have "length (open_assignments (assignment_assetId h) d) \<le> 1"
        by (simp add: one_open_assignment_def)
      with len[of "assignment_assetId h"] none show ?thesis
        by (cases "assignment_assetId h = ca_assetId body") simp_all
    next
      case 2
      with len[of "assignment_assetId h"] none g show ?thesis by simp
    qed
  qed
qed


subsection \<open>The transaction of an expenditure\<close>

lemma expenditure_create_Inr:
  assumes "expenditure_create aid bid qty reason descr expendedAt creator now d = Inr d'"
  shows "int32 qty \<and> text_ok reason \<and> text_opt_ok descr
       \<and> d' = d\<lparr>expenditures := expenditures d @
                  [\<lparr>expenditure_id = next_id d, expenditure_assetId = aid,
                    expenditure_baseId = bid, expenditure_quantity = qty,
                    expenditure_reason = reason, expenditure_description = descr,
                    expenditure_expendedAt = expendedAt, expenditure_createdById = creator,
                    expenditure_createdAt = now, expenditure_updatedAt = now\<rparr>],
                next_id := Suc (next_id d)\<rparr>"
  using assms by (auto simp: expenditure_create_def split: if_splits)

text \<open>The three steps behind every answer of \<^verbatim>\<open>createExpenditure\<close> that is not an
  early return or the 500 of a rollback.\<close>

lemma createExpenditure_steps:
  assumes "createExpenditure user body now d = (res, d')" and "res_status res = 201 \<or> d' \<noteq> d"
  shows "\<exists>a d0 d1. find_asset (ce_assetId body) d = Some a
           \<and> asset_baseId a = targetBaseId user (ce_baseId body) \<and> asset_status a \<noteq> EXPENDED
           \<and> expenditure_create (ce_assetId body) (targetBaseId user (ce_baseId body))
                (quantity_default (ce_quantity body)) (ce_reason body) (ce_description body)
                (case date_or_null (ce_expendedAt body) of Some t \<Rightarrow> t | None \<Rightarrow> now)
                (user_id user) now d = Inr d0
           \<and> asset_update (ce_assetId body) (\<lambda>a. a\<lparr>asset_status := EXPENDED\<rparr>) now d0 = Inr d1
           \<and> auto_return now (open_assignments (ce_assetId body) d) d1 = Inr d'
           \<and> res = Response 201 ''Expenditure recorded successfully''"
  using assms
  by (auto simp: createExpenditure_def createExpenditure_body_def Let_def
      split: option.splits if_splits sum.splits)
subsection \<open>The integrity of the store is kept by every handler\<close>

text \<open>The hypotheses \<open>wf_db\<close> and \<open>one_open_assignment\<close> of the theorems below are
  invariants: each handler modelled here takes a store that satisfies them to a store
  that satisfies them.\<close>

lemma wf_db_keys:
  "wf_db d \<longleftrightarrow>
     distinct (map asset_id (assets d)) \<and> distinct (map assignment_id (assignments d))
     \<and> (\<forall>i\<in>set (map asset_id (assets d)). i < next_id d)
     \<and> (\<forall>i\<in>set (map assignment_id (assignments d)). i < next_id d)
     \<and> (\<forall>i\<in>set (map transfer_id (transfers d)). i < next_id d)
     \<and> set (map item_transferId (transferItems d)) \<subseteq> set (map transfer_id (transfers d))"
proof -
  have "set (map item_transferId (transferItems d)) \<subseteq> set (map transfer_id (transfers d))
      \<longleftrightarrow> (\<forall>it \<in> set (transferItems d). item_transferId it \<in> transfer_id ` set (transfers d))"
    by (simp add: image_subset_iff)
  then show ?thesis unfolding wf_db_def by simp
qed

text \<open>A step that keeps the keys of every table and does not lower the counter.\<close>

lemma wf_db_same_keys:
  assumes "wf_db d" and k: "table_keys d' = table_keys d" and "next_id d \<le> next_id d'"
  shows "wf_db d'"
proof -
  from k have e: "map asset_id (assets d') = map asset_id (assets d)"
    "map assignment_id (assignments d') = map assignment_id (assignments d)"
    "map transfer_id (transfers d') = map transfer_id (transfers d)"
    "map item_transferId (transferItems d') = map item_transferId (transferItems d)"
    by (simp_all add: table_keys_def)
  from assms(1) have w: "distinct (map asset_id (assets d))"
    "distinct (map assignment_id (assignments d))"
    "\<forall>i\<in>set (map asset_id (assets d)). i < next_id d"
    "\<forall>i\<in>set (map assignment_id (assignments d)). i < next_id d"
    "\<forall>i\<in>set (map transfer_id (transfers d)). i < next_id d"
    "set (map item_transferId (transferItems d)) \<subseteq> set (map transfer_id (transfers d))"
    unfolding wf_db_keys by blast+
  from w(3-5) assms(3) have b: "\<forall>i\<in>set (map asset_id (assets d)). i < next_id d'"
    "\<forall>i\<in>set (map assignment_id (assignments d)). i < next_id d'"
    "\<forall>i\<in>set (map transfer_id (transfers d)). i < next_id d'"
    by (meson less_le_trans)+
  show ?thesis unfolding wf_db_keys e using w(1,2,6) b by blast
qed

lemmas key_if = if_distrib[of asset_id] if_distrib[of assignment_id] if_distrib[of transfer_id]

lemma asset_update_keys:
  assumes "asset_update i f now d = Inr d'" and "\<And>b. asset_id (f b) = asset_id b"
  shows "table_keys d' = table_keys d \<and> next_id d' = next_id d"
  unfolding asset_update_Inr[OF assms(1)] using assms(2)
  by (simp add: table_keys_def o_def key_if)

lemma transfer_update_keys:
  assumes "transfer_update i f now d = Inr d'" and "\<And>t. transfer_id (f t) = transfer_id t"
  shows "table_keys d' = table_keys d \<and> next_id d' = next_id d"
  unfolding transfer_update_Inr[OF assms(1)] using assms(2)
  by (simp add: table_keys_def o_def key_if)

lemma assignment_update_keys:
  assumes "assignment_update i f now d = Inr d'" and "\<And>g. assignment_id (f g) = assignment_id g"
  shows "table_keys d' = table_keys d \<and> next_id d' = next_id d"
  unfolding assignment_update_Inr[OF assms(1)] using assms(2)
  by (simp add: table_keys_def o_def key_if)

lemma update_item_assets_keys:
  assumes "update_item_assets f now its d = Inr d'" and "\<And>b. asset_id (f b) = asset_id b"
  shows "table_keys d' = table_keys d \<and> next_id d' = next_id d"
  using assms
proof (induction its arbitrary: d)
  case Nil
  then show ?case by simp
next
  case (Cons it its)
  from Cons.prems(1) obtain d1 where d1: "asset_update (item_assetId it) f now d = Inr d1"
    and rest: "update_item_assets f now its d1 = Inr d'"
    by (auto split: sum.splits)
  from Cons.IH[OF rest Cons.prems(2)] asset_update_keys[OF d1 Cons.prems(2)]
  show ?case by simp
qed

lemma auto_return_keys:
  assumes "auto_return now gs d = Inr d'"
  shows "table_keys d' = table_keys d \<and> next_id d' = next_id d"
  using assms
proof (induction gs arbitrary: d)
  case Nil
  then show ?case by simp
next
  case (Cons g gs)
  from Cons.prems obtain d1 where
    u: "assignment_update (assignment_id g)
             (\<lambda>h. h\<lparr>assignment_returnedAt := Some now,
                     assignment_notes := Some (expended_notes (assignment_notes g))\<rparr>) now d = Inr d1"
    and rest: "auto_return now gs d1 = Inr d'"
    by (auto split: sum.splits)
  from Cons.IH[OF rest] assignment_update_keys[OF u] show ?case by simp
qed

lemma approveTransfer_keeps_wf:
  assumes "wf_db d" and "approveTransfer user i notes now d = (res, d')"
  shows "wf_db d'"
proof -
  from assms(2) have "table_keys d' = table_keys d \<and> next_id d' = next_id d"
    by (auto simp: approveTransfer_def split: option.splits if_splits sum.splits
        dest!: transfer_update_keys)
  then have "table_keys d' = table_keys d" "next_id d \<le> next_id d'" by simp_all
  with assms(1) show ?thesis by (rule wf_db_same_keys)
qed

lemma completeTransfer_keeps_wf:
  assumes "wf_db d" and "completeTransfer user i now d = (res, d')"
  shows "wf_db d'"
proof -
  from assms(2) have "table_keys d' = table_keys d \<and> next_id d' = next_id d"
    by (auto simp: completeTransfer_def completeTransfer_body_def
        split: option.splits if_splits sum.splits
        dest!: transfer_update_keys update_item_assets_keys)
  then have "table_keys d' = table_keys d" "next_id d \<le> next_id d'" by simp_all
  with assms(1) show ?thesis by (rule wf_db_same_keys)
qed

lemma cancelTransfer_keeps_wf:
  assumes "wf_db d" and "cancelTransfer user i reason now d = (res, d')"
  shows "wf_db d'"
proof -
  from assms(2) have "table_keys d' = table_keys d \<and> next_id d' = next_id d"
    by (auto simp: cancelTransfer_def cancelTransfer_body_def
        split: option.splits if_splits sum.splits
        dest!: transfer_update_keys update_item_assets_keys)
  then have "table_keys d' = table_keys d" "next_id d \<le> next_id d'" by simp_all
  with assms(1) show ?thesis by (rule wf_db_same_keys)
qed

lemma returnAssignment_keeps_wf:
  assumes "wf_db d" and "returnAssignment user i notes condition now d = (res, d')"
  shows "wf_db d'"
proof -
  from assms(2) have "table_keys d' = table_keys d \<and> next_id d' = next_id d"
    by (auto simp: returnAssignment_def returnAssignment_body_def
        split: option.splits if_splits sum.splits
        dest!: assignment_update_keys asset_update_keys)
  then have "table_keys d' = table_keys d" "next_id d \<le> next_id d'" by simp_all
  with assms(1) show ?thesis by (rule wf_db_same_keys)
qed

lemma updateAsset_keeps_wf:
  assumes "wf_db d" and "updateAsset user i body now d = (res, d')"
  shows "wf_db d'"
proof -
  have "asset_id (updateData body b) = asset_id b" for b
    by (simp add: updateData_def Let_def split: option.splits)
  with assms(2) have "table_keys d' = table_keys d \<and> next_id d' = next_id d"
    by (auto simp: updateAsset_def split: option.splits if_splits sum.splits
        dest!: asset_update_keys)
  then have "table_keys d' = table_keys d" "next_id d \<le> next_id d'" by simp_all
  with assms(1) show ?thesis by (rule wf_db_same_keys)
qed

text \<open>Steps that append rows with identifiers drawn from the counter.\<close>

lemma createAsset_keeps_wf:
  assumes "wf_db d" and "createAsset user body now d = (res, d')"
  shows "wf_db d'"
proof (cases "d' = d")
  case True
  with assms show ?thesis by simp
next
  case False
  with assms(2) have "asset_create body (targetBaseId user (cab_baseId body)) now d = Inr d'"
    by (auto simp: createAsset_def Let_def split: option.splits if_splits sum.splits)
  then have "map asset_id (assets d') = map asset_id (assets d) @ [next_id d]"
    "assignments d' = assignments d" "transfers d' = transfers d"
    "transferItems d' = transferItems d" "next_id d' = Suc (next_id d)"
    by (auto simp: asset_create_def split: if_splits)
  with assms(1) show ?thesis unfolding wf_db_keys by (auto simp del: set_map simp: less_Suc_eq)
qed

lemma createAssignment_keeps_wf:
  assumes "wf_db d" and "createAssignment user body now d = (res, d')"
  shows "wf_db d'"
proof (cases "d' = d")
  case True
  with assms show ?thesis by simp
next
  case False
  with assms(2) have
    "createAssignment_body user body (targetBaseId user (ca_baseId body)) now d = Inr d'"
    by (auto simp: createAssignment_def Let_def split: option.splits if_splits sum.splits)
  then have "map asset_id (assets d') = map asset_id (assets d)"
    "map assignment_id (assignments d') = map assignment_id (assignments d) @ [next_id d]"
    "transfers d' = transfers d"
    "transferItems d' = transferItems d" "next_id d' = Suc (next_id d)"
    by (auto simp: createAssignment_body_def assignment_create_def o_def key_if
        dest!: asset_update_Inr)
  with assms(1) show ?thesis unfolding wf_db_keys by (auto simp del: set_map simp: less_Suc_eq)
qed

lemma createExpenditure_keeps_wf:
  assumes "wf_db d" and "createExpenditure user body now d = (res, d')"
  shows "wf_db d'"
proof (cases "d' = d")
  case True
  with assms show ?thesis by simp
next
  case False
  with createExpenditure_steps[OF assms(2)] obtain d0 d1 where
    c: "expenditure_create (ce_assetId body) (targetBaseId user (ce_baseId body))
          (quantity_default (ce_quantity body)) (ce_reason body) (ce_description body)
          (case date_or_null (ce_expendedAt body) of Some t \<Rightarrow> t | None \<Rightarrow> now)
          (user_id user) now d = Inr d0"
    and a: "asset_update (ce_assetId body) (\<lambda>a. a\<lparr>asset_status := EXPENDED\<rparr>) now d0 = Inr d1"
    and l: "auto_return now (open_assignments (ce_assetId body) d) d1 = Inr d'"
    by blast
  from expenditure_create_Inr[OF c]
  have "table_keys d0 = table_keys d \<and> next_id d \<le> next_id d0"
    by (simp add: table_keys_def)
  with asset_update_keys[OF a] auto_return_keys[OF l]
  have "table_keys d' = table_keys d \<and> next_id d \<le> next_id d'"
    by simp
  then have "table_keys d' = table_keys d" "next_id d \<le> next_id d'" by simp_all
  with assms(1) show ?thesis by (rule wf_db_same_keys)
qed

lemma deleteAsset_keeps_wf:
  assumes "wf_db d" and "deleteAsset user i d = (res, d')"
  shows "wf_db d'"
proof (cases "d' = d")
  case True
  with assms show ?thesis by simp
next
  case False
  with assms(2) have "d' = d\<lparr>assets := filter (\<lambda>a. asset_id a \<noteq> i) (assets d)\<rparr>"
    by (auto simp: deleteAsset_def asset_delete_def split: option.splits if_splits)
  with assms(1) show ?thesis by (auto simp: wf_db_def distinct_map_filter)
qed

lemma createTransfer_keeps_wf:
  assumes "wf_db d" and "createTransfer user body codes now d = Some (res, d')"
  shows "wf_db d'"
proof (cases "d' = d")
  case True
  with assms show ?thesis by simp
next
  case False
  with assms(2) obtain t where b: "createTransfer_body user body codes now d = Some (Inr (t, d'))"
    by (auto simp: createTransfer_def createTransfer_tx_def split: option.splits sum.splits)
  note e = createTransfer_body_Inr[OF b]
  from e obtain new where new: "transferItems d' = transferItems d @ new"
    "map (\<lambda>it. (item_transferId it, item_assetId it, item_quantity it, item_notes it)) new
       = map (\<lambda>q. (next_id d, req_assetId q, quantity_or_1 (req_quantity q), req_notes q))
           (ct_assets body)"
    by blast
  have "map item_transferId new = map fst
        (map (\<lambda>it. (item_transferId it, item_assetId it, item_quantity it, item_notes it)) new)"
    by simp
  also have "\<dots> = map (\<lambda>q. next_id d) (ct_assets body)" unfolding new(2) by simp
  finally have nt: "set (map item_transferId new) \<subseteq> {next_id d}" by auto
  have k: "map asset_id (assets d') = map asset_id (assets d)"
    "map assignment_id (assignments d') = map assignment_id (assignments d)"
    "map transfer_id (transfers d') = map transfer_id (transfers d) @ [next_id d]"
    "map item_transferId (transferItems d') = map item_transferId (transferItems d)
        @ map item_transferId new"
    using e new(1) by (simp_all add: o_def key_if)
  have n: "next_id d < next_id d'" using e by simp
  from assms(1) have w: "distinct (map asset_id (assets d))"
    "distinct (map assignment_id (assignments d))"
    "\<forall>i\<in>set (map asset_id (assets d)). i < next_id d"
    "\<forall>i\<in>set (map assignment_id (assignments d)). i < next_id d"
    "\<forall>i\<in>set (map transfer_id (transfers d)). i < next_id d"
    "set (map item_transferId (transferItems d)) \<subseteq> set (map transfer_id (transfers d))"
    unfolding wf_db_keys by blast+
  from w(3-5) n have b: "\<forall>i\<in>set (map asset_id (assets d)). i < next_id d'"
    "\<forall>i\<in>set (map assignment_id (assignments d)). i < next_id d'"
    "\<forall>i\<in>set (map transfer_id (transfers d)). i < next_id d'"
    by (meson less_trans)+
  show ?thesis unfolding wf_db_keys k using w(1,2,6) b n nt
    by (auto simp del: set_map)
qed

lemma length_filter_mono:
  assumes "\<And>x. x \<in> set xs \<Longrightarrow> Q x \<Longrightarrow> P x"
  shows "length (filter Q xs) \<le> length (filter P xs)"
  using assms by (induction xs) (auto simp: le_SucI)

text \<open>A step that rewrites assignments without reopening any and without moving any to
  another asset keeps the rule of at most one open assignment.\<close>

lemma one_open_kept_by_closing:
  assumes inv: "one_open_assignment d"
    and m: "assignments d' = map u (assignments d)"
    and a: "\<And>h. assignment_assetId (u h) = assignment_assetId h"
    and c: "\<And>h. assignment_returnedAt (u h) = None \<Longrightarrow> assignment_returnedAt h = None"
  shows "one_open_assignment d'"
proof -
  have len: "length (open_assignments aid d') \<le> length (open_assignments aid d)" for aid
  proof -
    have "length (open_assignments aid d')
        = length (filter (\<lambda>h. assignment_assetId (u h) = aid \<and> assignment_returnedAt (u h) = None)
            (assignments d))"
      unfolding open_assignments_def m by (simp add: filter_map o_def)
    also have "\<dots> \<le> length (open_assignments aid d)"
      unfolding open_assignments_def by (rule length_filter_mono) (auto simp: a dest: c)
    finally show ?thesis .
  qed
  show ?thesis
    unfolding one_open_assignment_def
  proof
    fix h' assume "h' \<in> set (assignments d')"
    with m obtain h where h: "h \<in> set (assignments d)" "h' = u h" by auto
    with inv have "length (open_assignments (assignment_assetId h) d) \<le> 1"
      by (simp add: one_open_assignment_def)
    with len[of "assignment_assetId h"] h a
    show "length (open_assignments (assignment_assetId h') d') \<le> 1" by simp
  qed
qed

lemma returnAssignment_keeps_one_open:
  assumes inv: "one_open_assignment d"
    and r: "returnAssignment user i notes condition now d = (res, d')"
  shows "one_open_assignment d'"
proof (cases "d' = d")
  case True
  with inv show ?thesis by simp
next
  case False
  with r obtain g where b: "returnAssignment_body g notes condition now d = Inr d'"
    by (auto simp: returnAssignment_def split: option.splits if_splits sum.splits)
  then obtain d1 where
    u: "assignment_update (assignment_id g)
             (\<lambda>h. h\<lparr>assignment_returnedAt := Some now,
                     assignment_notes := return_notes notes (assignment_notes g)\<rparr>) now d = Inr d1"
    and a: "asset_update (assignment_assetId g)
            (\<lambda>a. a\<lparr>asset_status := newStatus condition\<rparr>) now d1 = Inr d'"
    by (auto simp: returnAssignment_body_def split: sum.splits)
  let ?u = "\<lambda>h. if assignment_id h = assignment_id g
              then h\<lparr>assignment_returnedAt := Some now,
                     assignment_notes := return_notes notes (assignment_notes g),
                     assignment_updatedAt := now\<rparr> else h"
  have "assignments d' = map ?u (assignments d)"
    by (simp add: asset_update_Inr[OF a] assignment_update_Inr[OF u])
  then show ?thesis
    by (rule one_open_kept_by_closing[OF inv]) (simp_all split: if_splits)
qed

lemma auto_return_closes:
  assumes "auto_return now gs d = Inr d'"
  shows "\<exists>u. assignments d' = map u (assignments d)
           \<and> (\<forall>h. assignment_assetId (u h) = assignment_assetId h)
           \<and> (\<forall>h. assignment_returnedAt (u h) = None \<longrightarrow> assignment_returnedAt h = None)"
  using assms
proof (induction gs arbitrary: d)
  case Nil
  then have "assignments d' = map (\<lambda>h. h) (assignments d)" by simp
  then show ?case by blast
next
  case (Cons g gs)
  from Cons.prems obtain d1 where
    u: "assignment_update (assignment_id g)
             (\<lambda>h. h\<lparr>assignment_returnedAt := Some now,
                     assignment_notes := Some (expended_notes (assignment_notes g))\<rparr>) now d = Inr d1"
    and rest: "auto_return now gs d1 = Inr d'"
    by (auto split: sum.splits)
  let ?v = "\<lambda>h. if assignment_id h = assignment_id g
             then h\<lparr>assignment_returnedAt := Some now,
                    assignment_notes := Some (expended_notes (assignment_notes g)),
                    assignment_updatedAt := now\<rparr> else h"
  from Cons.IH[OF rest] obtain w where w: "assignments d' = map w (assignments d1)"
    "\<forall>h. assignment_assetId (w h) = assignment_assetId h"
    "\<forall>h. assignment_returnedAt (w h) = None \<longrightarrow> assignment_returnedAt h = None"
    by blast
  have 1: "assignments d' = map (\<lambda>h. w (?v h)) (assignments d)"
    unfolding w(1) assignment_update_Inr[OF u] by (simp add: o_def)
  have 2: "\<forall>h. assignment_assetId (w (?v h)) = assignment_assetId h" using w(2) by simp
  have 3: "\<forall>h. assignment_returnedAt (w (?v h)) = None \<longrightarrow> assignment_returnedAt h = None"
  proof (intro allI impI)
    fix h assume "assignment_returnedAt (w (?v h)) = None"
    with w(3) have "assignment_returnedAt (?v h) = None" by blast
    then show "assignment_returnedAt h = None" by (simp split: if_splits)
  qed
  from 1 2 3 show ?case by blast
qed

lemma createExpenditure_keeps_one_open:
  assumes inv: "one_open_assignment d"
    and r: "createExpenditure user body now d = (res, d')"
  shows "one_open_assignment d'"
proof (cases "d' = d")
  case True
  with inv show ?thesis by simp
next
  case False
  with createExpenditure_steps[OF r] obtain d0 d1 where
    c: "expenditure_create (ce_assetId body) (targetBaseId user (ce_baseId body))
          (quantity_default (ce_quantity body)) (ce_reason body) (ce_description body)
          (case date_or_null (ce_expendedAt body) of Some t \<Rightarrow> t | None \<Rightarrow> now)
          (user_id user) now d = Inr d0"
    and a: "asset_update (ce_assetId body) (\<lambda>a. a\<lparr>asset_status := EXPENDED\<rparr>) now d0 = Inr d1"
    and l: "auto_return now (open_assignments (ce_assetId body) d) d1 = Inr d'"
    by blast
  have "assignments d1 = assignments d"
    unfolding asset_update_Inr[OF a] using expenditure_create_Inr[OF c] by simp
  with auto_return_closes[OF l] obtain u where "assignments d' = map u (assignments d)"
    "\<And>h. assignment_assetId (u h) = assignment_assetId h"
    "\<And>h. assignment_returnedAt (u h) = None \<Longrightarrow> assignment_returnedAt h = None"
    by auto
  then show ?thesis by (rule one_open_kept_by_closing[OF inv])
qed

subsection \<open>When a transfer is created\<close>

lemma create_items_succeeds:
  assumes "distinct (map req_assetId rs)"
    and "\<forall>r\<in>set rs. find_asset (req_assetId r) d \<noteq> None"
    and "\<forall>it\<in>set (transferItems d). item_transferId it = tid
            \<longrightarrow> item_assetId it \<notin> req_assetId ` set rs"
    and "\<forall>r\<in>set rs. int32 (quantity_or_1 (req_quantity r)) \<and> text_opt_ok (req_notes r)"
  shows "\<exists>d'. create_items tid now rs d = Inr d'"
  using assms
proof (induction rs arbitrary: d)
  case Nil
  then show ?case by simp
next
  case (Cons r rs)
  let ?it = "\<lparr>item_id = next_id d, item_transferId = tid, item_assetId = req_assetId r,
               item_quantity = quantity_or_1 (req_quantity r), item_notes = req_notes r\<rparr>"
  let ?d1 = "d\<lparr>transferItems := transferItems d @ [?it], next_id := Suc (next_id d)\<rparr>"
  let ?g = "\<lambda>b. if asset_id b = req_assetId r
              then b\<lparr>asset_status := IN_TRANSIT, asset_updatedAt := now\<rparr> else b"
  let ?d2 = "?d1\<lparr>assets := map ?g (assets ?d1)\<rparr>"
  have free: "\<not> (\<exists>it\<in>set (transferItems d). item_transferId it = tid
                  \<and> item_assetId it = req_assetId r)"
    using Cons.prems(3) by auto
  then have 1: "transferItem_create tid (req_assetId r) (quantity_or_1 (req_quantity r))
                  (req_notes r) d = Inr ?d1"
    using Cons.prems(4) by (simp add: transferItem_create_def)
  have "find_asset (req_assetId r) ?d1 \<noteq> None"
    using Cons.prems(2) by (simp add: find_asset_def)
  then have 2: "asset_update (req_assetId r) (\<lambda>a. a\<lparr>asset_status := IN_TRANSIT\<rparr>) now ?d1 = Inr ?d2"
    by (subst asset_update_succeeds) simp_all
  have a: "distinct (map req_assetId rs)" using Cons.prems(1) by simp
  have b: "\<forall>q\<in>set rs. find_asset (req_assetId q) ?d2 \<noteq> None"
    using Cons.prems(2) by (simp add: find_asset_def find_map_same)
  have c: "\<forall>it\<in>set (transferItems ?d2). item_transferId it = tid
            \<longrightarrow> item_assetId it \<notin> req_assetId ` set rs"
  proof (intro ballI impI)
    fix it assume it: "it \<in> set (transferItems ?d2)" and t: "item_transferId it = tid"
    from it have "it \<in> set (transferItems d) \<or> it = ?it" by auto
    then show "item_assetId it \<notin> req_assetId ` set rs"
    proof
      assume "it \<in> set (transferItems d)"
      with Cons.prems(3) t show ?thesis by auto
    next
      assume "it = ?it"
      with Cons.prems(1) show ?thesis by auto
    qed
  qed
  have e: "\<forall>q\<in>set rs. int32 (quantity_or_1 (req_quantity q)) \<and> text_opt_ok (req_notes q)"
    using Cons.prems(4) by simp
  from Cons.IH[OF a b c e] 1 2 show ?case by simp
qed

text \<open>The transaction commits on a well-formed store whenever the requested assets
  are pairwise different and in the store, the store admits the rows asked for, and
  some candidate code is not taken.\<close>

lemma createTransfer_tx_succeeds:
  assumes wf: "wf_db d"
    and di: "distinct (map req_assetId (ct_assets body))"
    and ex: "\<forall>r\<in>set (ct_assets body). find_asset (req_assetId r) d \<noteq> None"
    and ok: "transfer_columns_ok body"
    and c: "\<exists>c\<in>set codes. find_transfer_by_code c d = None"
  shows "\<exists>d'. createTransfer_tx user body codes now d
           = Some (Response 201 ''Transfer created successfully'', d')"
proof -
  have "\<exists>c. unique_code cs d = Some c \<and> find_transfer_by_code c d = None"
    if "\<exists>c\<in>set cs. find_transfer_by_code c d = None" for cs
    using that by (induction cs) auto
  with c obtain code where code: "unique_code codes d = Some code"
    "find_transfer_by_code code d = None" by blast
  let ?t = "\<lparr>transfer_id = next_id d, transfer_transferCode = code,
                 transfer_fromBaseId = ct_fromBaseId body, transfer_toBaseId = ct_toBaseId body,
                 transfer_status = PENDING, transfer_reason = ct_reason body,
                 transfer_notes = ct_notes body,
                 transfer_createdById = user_id user, transfer_approvedById = None,
                 transfer_approvedAt = None, transfer_completedAt = None,
                 transfer_createdAt = now, transfer_updatedAt = now\<rparr>"
  let ?d1 = "d\<lparr>transfers := transfers d @ [?t], next_id := Suc (next_id d)\<rparr>"
  have tc: "transfer_create code (ct_fromBaseId body) (ct_toBaseId body) (ct_reason body)
              (ct_notes body) (user_id user) now d = Inr (?t, ?d1)"
    using code(2) ok by (simp add: transfer_create_def transfer_columns_ok_def Let_def)
  have ex1: "\<forall>r\<in>set (ct_assets body). find_asset (req_assetId r) ?d1 \<noteq> None"
    using ex by (auto simp: find_asset_def)
  have fr: "\<forall>it\<in>set (transferItems ?d1). item_transferId it = next_id d
            \<longrightarrow> item_assetId it \<notin> req_assetId ` set (ct_assets body)"
    using wf_db_fresh(2)[OF wf] by simp
  have cols: "\<forall>r\<in>set (ct_assets body). int32 (quantity_or_1 (req_quantity r))
      \<and> text_opt_ok (req_notes r)"
    using ok by (simp add: transfer_columns_ok_def)
  from create_items_succeeds[OF di ex1 fr cols] obtain d' where
    "create_items (next_id d) now (ct_assets body) ?d1 = Inr d'" by blast
  with tc code(1) show ?thesis
    by (simp add: createTransfer_tx_def createTransfer_body_def)
qed

text \<open>So a request that passes the checks of \<^verbatim>\<open>createTransfer\<close>, for rows that the
  store admits, is answered 201.\<close>

lemma createTransfer_succeeds:
  assumes wf: "wf_db d" and v: "createTransfer_validate user body d = None"
    and ok: "transfer_columns_ok body"
    and c: "\<exists>c\<in>set codes. find_transfer_by_code c d = None"
  shows "\<exists>d'. createTransfer user body codes now d
           = Some (Response 201 ''Transfer created successfully'', d')"
proof -
  note vn = validate_None[OF wf v]
  have "\<forall>r\<in>set (ct_assets body). find_asset (req_assetId r) d \<noteq> None"
    using vn(6) by auto
  from createTransfer_tx_succeeds[OF wf vn(5) this ok c] v show ?thesis
    by (simp add: createTransfer_def)
qed

text \<open>Two requests that have both passed the checks on the same store are both
  answered 201, whatever assets they share.\<close>

lemma createTransfer_interleaved_both_succeed:
  assumes wf: "wf_db d"
    and v1: "createTransfer_validate u1 b1 d = None"
    and v2: "createTransfer_validate u2 b2 d = None"
    and ok1: "transfer_columns_ok b1" and ok2: "transfer_columns_ok b2"
    and c1: "\<exists>c\<in>set codes1. find_transfer_by_code c d = None"
    and c2: "\<exists>c\<in>set codes2. c \<notin> set codes1 \<and> find_transfer_by_code c d = None"
  shows "\<exists>d2. createTransfer_interleaved u1 b1 codes1 u2 b2 codes2 now d
           = Some (Response 201 ''Transfer created successfully'',
                   Response 201 ''Transfer created successfully'', d2)"
proof -
  from createTransfer_succeeds[OF wf v1 ok1 c1] obtain d1 where
    r1: "createTransfer u1 b1 codes1 now d
           = Some (Response 201 ''Transfer created successfully'', d1)" by blast
  with v1 have tx1: "createTransfer_tx u1 b1 codes1 now d
           = Some (Response 201 ''Transfer created successfully'', d1)"
    by (simp add: createTransfer_def)
  then obtain t where b: "createTransfer_body u1 b1 codes1 now d = Some (Inr (t, d1))"
    by (auto simp: createTransfer_tx_def split: option.splits sum.splits)
  note e = createTransfer_body_Inr[OF b]
  have wf1: "wf_db d1" by (rule createTransfer_keeps_wf[OF wf r1])
  note vn2 = validate_None[OF wf v2]
  let ?g = "\<lambda>b. if asset_id b \<in> req_assetId ` set (ct_assets b1)
               then b\<lparr>asset_status := IN_TRANSIT, asset_updatedAt := now\<rparr> else b"
  have "assets d1 = map ?g (assets d)" using e by simp
  then have fa: "find_asset j d1 = map_option ?g (find_asset j d)" for j
    unfolding find_asset_def by (simp add: find_map_same)
  have ex: "\<forall>r\<in>set (ct_assets b2). find_asset (req_assetId r) d1 \<noteq> None"
    using vn2(6) by (auto simp: fa)
  from c2 obtain c where c: "c \<in> set codes2" "c \<notin> set codes1" "find_transfer_by_code c d = None"
    by blast
  have "transfer_transferCode t \<noteq> c" using e c(2) by auto
  moreover have "transfers d1 = transfers d @ [t]" using e by simp
  moreover have "\<forall>x\<in>set (transfers d). transfer_transferCode x \<noteq> c"
    using c(3) by (simp add: find_transfer_by_code_def find_None_iff)
  ultimately have "find_transfer_by_code c d1 = None"
    by (auto simp: find_transfer_by_code_def find_None_iff)
  with c(1) have c': "\<exists>c\<in>set codes2. find_transfer_by_code c d1 = None" by blast
  from createTransfer_tx_succeeds[OF wf1 vn2(5) ex ok2 c'] obtain d2 where
    "createTransfer_tx u2 b2 codes2 now d1
           = Some (Response 201 ''Transfer created successfully'', d2)" by blast
  with tx1 v1 v2 show ?thesis by (simp add: createTransfer_interleaved_def)
qed


text \<open>And a request that passes the checks for a row that the store does not admit is
  answered 500, once the loop has found a code.\<close>

lemma createTransfer_refused:
  assumes v: "createTransfer_validate user body d = None"
    and no: "\<not> transfer_columns_ok body"
    and r: "createTransfer user body codes now d = Some (res, d')"
  shows "res = Response 500 ''Server error creating transfer'' \<and> d' = d"
proof -
  from v r have tx: "createTransfer_tx user body codes now d = Some (res, d')"
    by (simp add: createTransfer_def)
  have "\<not> (\<exists>t e. createTransfer_body user body codes now d = Some (Inr (t, e)))"
    using createTransfer_body_columns no by (auto simp: transfer_columns_ok_def)
  with tx show ?thesis
    by (auto simp: createTransfer_tx_def split: option.splits sum.splits)
qed
subsection \<open>Cancelling a transfer\<close>

text \<open>What a successful \<^verbatim>\<open>createTransfer\<close> leaves: the new transfer is the last one,
  it is PENDING, its items are the requested assets, and these are IN_TRANSIT at the
  source base.\<close>

lemma createTransfer_created:
  assumes wf: "wf_db d0"
    and c: "createTransfer u0 body codes now0 d0 = Some (r0, d)" and ok: "res_status r0 = 201"
  shows "\<exists>t. find_transfer (transfer_id (last (transfers d))) d = Some t
           \<and> transfer_status t = PENDING
           \<and> transfer_fromBaseId t = ct_fromBaseId body \<and> transfer_toBaseId t = ct_toBaseId body
           \<and> item_assetId ` set (items_of_transfer (transfer_id (last (transfers d))) d)
               = req_assetId ` set (ct_assets body)
           \<and> (\<forall>q\<in>set (ct_assets body). \<exists>a. find_asset (req_assetId q) d = Some a
                 \<and> asset_baseId a = ct_fromBaseId body \<and> asset_status a = IN_TRANSIT)"
proof -
  have v: "createTransfer_validate u0 body d0 = None"
  proof (cases "createTransfer_validate u0 body d0")
    case (Some x)
    then have "r0 = x" using c by (simp add: createTransfer_def)
    moreover have "res_status x \<noteq> 201"
      using Some by (auto simp: createTransfer_validate_def Let_def split: if_splits)
    ultimately show ?thesis using ok by simp
  qed
  note vn = validate_None[OF wf v]
  from v c ok obtain t where b: "createTransfer_body u0 body codes now0 d0 = Some (Inr (t, d))"
    by (auto simp: createTransfer_def createTransfer_tx_def split: option.splits sum.splits)
  note e = createTransfer_body_Inr[OF b]
  define tid where "tid = next_id d0"
  have last: "transfer_id (last (transfers d)) = tid" using e by (simp add: tid_def)
  from e obtain new where new: "transferItems d = transferItems d0 @ new"
    "map (\<lambda>it. (item_transferId it, item_assetId it, item_quantity it, item_notes it)) new
       = map (\<lambda>q. (next_id d0, req_assetId q, quantity_or_1 (req_quantity q), req_notes q))
           (ct_assets body)"
    by blast
  have new_tid: "\<forall>it\<in>set new. item_transferId it = tid"
  proof -
    have "map item_transferId new = map (\<lambda>q. fst q)
        (map (\<lambda>it. (item_transferId it, item_assetId it, item_quantity it, item_notes it)) new)"
      by simp
    also have "\<dots> = map (\<lambda>q. tid) (ct_assets body)" unfolding new(2) by (simp add: tid_def)
    finally have "set (map item_transferId new) \<subseteq> {tid}" by auto
    then show ?thesis by auto
  qed
  have new_aid: "item_assetId ` set new = req_assetId ` set (ct_assets body)"
  proof -
    have "map item_assetId new = map (\<lambda>q. fst (snd q))
        (map (\<lambda>it. (item_transferId it, item_assetId it, item_quantity it, item_notes it)) new)"
      by simp
    also have "\<dots> = map req_assetId (ct_assets body)" unfolding new(2) by simp
    finally have "set (map item_assetId new) = set (map req_assetId (ct_assets body))" by simp
    then show ?thesis by simp
  qed
  from wf_db_fresh[OF wf] have old_t: "\<forall>x\<in>set (transfers d0). transfer_id x \<noteq> tid"
    and old_i: "\<forall>it\<in>set (transferItems d0). item_transferId it \<noteq> tid"
    by (simp_all add: tid_def)
  have ft: "find_transfer tid d = Some t"
    unfolding find_transfer_def using e old_t by (simp add: find_snoc tid_def)
  have items: "items_of_transfer tid d = new"
    unfolding items_of_transfer_def new(1) using old_i new_tid by (simp add: filter_empty_conv)
  let ?g = "\<lambda>b. if asset_id b \<in> req_assetId ` set (ct_assets body)
               then b\<lparr>asset_status := IN_TRANSIT, asset_updatedAt := now0\<rparr> else b"
  have "assets d = map ?g (assets d0)" using e by simp
  then have fa: "find_asset j d = map_option ?g (find_asset j d0)" for j
    unfolding find_asset_def by (simp add: find_map_same)
  have members: "\<forall>q\<in>set (ct_assets body). \<exists>a. find_asset (req_assetId q) d = Some a
                 \<and> asset_baseId a = ct_fromBaseId body \<and> asset_status a = IN_TRANSIT"
  proof
    fix q assume q: "q \<in> set (ct_assets body)"
    with vn(6) obtain a where a: "find_asset (req_assetId q) d0 = Some a"
      "asset_baseId a = ct_fromBaseId body" by blast
    then have "asset_id a = req_assetId q"
      by (auto simp: find_asset_def dest: find_Some_iff[THEN iffD1])
    with a q show "\<exists>a. find_asset (req_assetId q) d = Some a
                 \<and> asset_baseId a = ct_fromBaseId body \<and> asset_status a = IN_TRANSIT"
      by (simp add: fa)
  qed
  from ft e items new_aid members show ?thesis unfolding last by simp
qed

lemma cancelTransfer_ok:
  assumes t: "find_transfer i d = Some t"
    and st: "transfer_status t = PENDING \<or> transfer_status t = APPROVED"
    and au: "\<not> (user_role user = BASE_COMMANDER \<and> user_baseId user \<noteq> Some (transfer_fromBaseId t))"
    and ex: "\<forall>it\<in>set (items_of_transfer i d). find_asset (item_assetId it) d \<noteq> None"
  shows "cancelTransfer user i reason now d =
           (Response 200 ''Transfer cancelled successfully'',
            d\<lparr>transfers := map (\<lambda>x. if transfer_id x = i
                 then x\<lparr>transfer_status := CANCELLED,
                        transfer_notes := cancel_notes reason (transfer_notes t),
                        transfer_updatedAt := now\<rparr>
                 else x) (transfers d),
              assets := map (\<lambda>b. if asset_id b \<in> item_assetId ` set (items_of_transfer i d)
                 then b\<lparr>asset_status := AVAILABLE, asset_updatedAt := now\<rparr>
                 else b) (assets d)\<rparr>)"
proof -
  let ?f = "\<lambda>a. a\<lparr>asset_status := AVAILABLE\<rparr>"
  let ?d1 = "d\<lparr>transfers := map (\<lambda>x. if transfer_id x = i
                 then x\<lparr>transfer_status := CANCELLED,
                        transfer_notes := cancel_notes reason (transfer_notes t),
                        transfer_updatedAt := now\<rparr>
                 else x) (transfers d)\<rparr>"
  from t have ti: "transfer_id t = i"
    by (auto simp: find_transfer_def dest: find_Some_iff[THEN iffD1])
  have u: "transfer_update (transfer_id t)
             (\<lambda>x. x\<lparr>transfer_status := CANCELLED,
                     transfer_notes := cancel_notes reason (transfer_notes t)\<rparr>) now d = Inr ?d1"
    using t ti by (simp add: transfer_update_succeeds)
  have "\<forall>it\<in>set (items_of_transfer i d). find_asset (item_assetId it) ?d1 \<noteq> None"
    using ex by (simp add: find_asset_def)
  from update_item_assets_succeeds[OF this, of ?f now]
  obtain d2 where d2: "update_item_assets ?f now (items_of_transfer i d) ?d1 = Inr d2" by auto
  from update_item_assets_Inr[OF d2]
  have "d2 = ?d1\<lparr>assets := map (\<lambda>b. if asset_id b \<in> item_assetId ` set (items_of_transfer i d)
                 then (?f b)\<lparr>asset_updatedAt := now\<rparr> else b) (assets ?d1)\<rparr>" by simp
  with d2 u t st au show ?thesis
    by (auto simp: cancelTransfer_def cancelTransfer_body_def)
qed

subsection \<open>What an expenditure writes\<close>

text \<open>With the asset in the store, at the target base and not yet EXPENDED, and a row
  that the store admits, the transaction of \<^verbatim>\<open>createExpenditure\<close> commits.\<close>

lemma createExpenditure_succeeds:
  assumes a: "find_asset (ce_assetId body) d = Some a"
    and b: "asset_baseId a = targetBaseId user (ce_baseId body)"
    and s: "asset_status a \<noteq> EXPENDED"
    and ok: "expenditure_columns_ok body"
  shows "\<exists>d'. createExpenditure user body now d
           = (Response 201 ''Expenditure recorded successfully'', d')"
proof -
  let ?aid = "ce_assetId body"
  let ?row = "\<lparr>expenditure_id = next_id d, expenditure_assetId = ?aid,
                expenditure_baseId = targetBaseId user (ce_baseId body),
                expenditure_quantity = quantity_default (ce_quantity body),
                expenditure_reason = ce_reason body, expenditure_description = ce_description body,
                expenditure_expendedAt =
                  (case date_or_null (ce_expendedAt body) of Some t \<Rightarrow> t | None \<Rightarrow> now),
                expenditure_createdById = user_id user,
                expenditure_createdAt = now, expenditure_updatedAt = now\<rparr>"
  let ?d0 = "d\<lparr>expenditures := expenditures d @ [?row], next_id := Suc (next_id d)\<rparr>"
  let ?g = "\<lambda>b. if asset_id b = ?aid then b\<lparr>asset_status := EXPENDED, asset_updatedAt := now\<rparr> else b"
  let ?d1 = "?d0\<lparr>assets := map ?g (assets ?d0)\<rparr>"
  have c: "expenditure_create ?aid (targetBaseId user (ce_baseId body))
             (quantity_default (ce_quantity body)) (ce_reason body) (ce_description body)
             (case date_or_null (ce_expendedAt body) of Some t \<Rightarrow> t | None \<Rightarrow> now)
             (user_id user) now d = Inr ?d0"
    using ok by (simp add: expenditure_create_def expenditure_columns_ok_def)
  have au: "asset_update ?aid (\<lambda>a. a\<lparr>asset_status := EXPENDED\<rparr>) now ?d0 = Inr ?d1"
    using a by (intro asset_update_succeeds) (simp_all add: find_asset_def)
  have fo: "\<forall>g\<in>set (open_assignments ?aid d). find_assignment (assignment_id g) ?d1 \<noteq> None"
    by (auto simp: open_assignments_def find_assignment_def find_None_iff)
  from auto_return_succeeds[OF fo] obtain d2 where
    "auto_return now (open_assignments ?aid d) ?d1 = Inr d2" by blast
  with c au have "createExpenditure_body user body (targetBaseId user (ce_baseId body))
      (open_assignments ?aid d) now d = Inr d2"
    by (simp add: createExpenditure_body_def)
  with a b s show ?thesis by (auto simp: createExpenditure_def Let_def)
qed

text \<open>The store after a successful \<^verbatim>\<open>createExpenditure\<close>, on a store with unique
  assignment identifiers.\<close>

lemma createExpenditure_result:
  assumes wf: "wf_db d" and r: "createExpenditure user body now d = (res, d')"
    and ok: "res_status res = 201"
  shows "expenditure_columns_ok body
       \<and> (\<exists>e. expenditures d' = expenditures d @ [e]
              \<and> expenditure_assetId e = ce_assetId body
              \<and> expenditure_baseId e = targetBaseId user (ce_baseId body)
              \<and> expenditure_quantity e = quantity_default (ce_quantity body))
       \<and> assets d' = map (\<lambda>b. if asset_id b = ce_assetId body
                               then b\<lparr>asset_status := EXPENDED, asset_updatedAt := now\<rparr> else b)
                        (assets d)
       \<and> assignments d' =
            map (\<lambda>h. if assignment_assetId h = ce_assetId body \<and> assignment_returnedAt h = None
                     then h\<lparr>assignment_returnedAt := Some now,
                            assignment_notes := Some (expended_notes (assignment_notes h)),
                            assignment_updatedAt := now\<rparr>
                     else h) (assignments d)"
proof -
  let ?aid = "ce_assetId body"
  let ?open = "open_assignments ?aid d"
  let ?P = "\<lambda>g. assignment_assetId g = ?aid \<and> assignment_returnedAt g = None"
  let ?u = "\<lambda>h. if ?P h
                        then h\<lparr>assignment_returnedAt := Some now,
                               assignment_notes := Some (expended_notes (assignment_notes h)),
                               assignment_updatedAt := now\<rparr>
                        else h"
  from createExpenditure_steps[OF r] ok obtain d0 d1 where
    c: "expenditure_create ?aid (targetBaseId user (ce_baseId body))
          (quantity_default (ce_quantity body)) (ce_reason body) (ce_description body)
          (case date_or_null (ce_expendedAt body) of Some t \<Rightarrow> t | None \<Rightarrow> now)
          (user_id user) now d = Inr d0"
    and au: "asset_update ?aid (\<lambda>a. a\<lparr>asset_status := EXPENDED\<rparr>) now d0 = Inr d1"
    and l: "auto_return now ?open d1 = Inr d'"
    by blast
  note c' = expenditure_create_Inr[OF c]
  from wf have pk: "distinct (map assignment_id (assignments d))" by (simp add: wf_db_def)
  have dopen: "distinct (map assignment_id ?open)"
    unfolding open_assignments_def using pk by (rule distinct_map_filter)
  have asg1: "assignments d1 = assignments d"
    unfolding asset_update_Inr[OF au] using c' by simp
  have m: "map (\<lambda>h. case find (\<lambda>g. assignment_id g = assignment_id h) ?open of
                       None \<Rightarrow> h
                     | Some g \<Rightarrow> h\<lparr>assignment_returnedAt := Some now,
                                   assignment_notes := Some (expended_notes (assignment_notes g)),
                                   assignment_updatedAt := now\<rparr>) (assignments d)
          = map ?u (assignments d)"
    unfolding open_assignments_def
    by (rule map_cong[OF refl]) (simp add: find_in_filter[OF pk])
  have d': "d' = d1\<lparr>assignments := map ?u (assignments d)\<rparr>"
    using auto_return_Inr[OF l dopen] unfolding asg1 m .
  have 1: "expenditure_columns_ok body" using c' by (simp add: expenditure_columns_ok_def)
  have 2: "\<exists>e. expenditures d' = expenditures d @ [e]
              \<and> expenditure_assetId e = ce_assetId body
              \<and> expenditure_baseId e = targetBaseId user (ce_baseId body)
              \<and> expenditure_quantity e = quantity_default (ce_quantity body)"
    unfolding d' asset_update_Inr[OF au] using c' by simp
  have 3: "assets d' = map (\<lambda>b. if asset_id b = ce_assetId body
                               then b\<lparr>asset_status := EXPENDED, asset_updatedAt := now\<rparr> else b)
                        (assets d)"
    unfolding d' asset_update_Inr[OF au] using c' by simp
  have 4: "assignments d' = map ?u (assignments d)" unfolding d' by simp
  from 1 2 3 4 show ?thesis by blast
qed

subsection \<open>An expended asset is not actively assigned\<close>

text \<open>The rule for the asset \<open>aid\<close> is kept by a step after which every EXPENDED row of
  the asset was EXPENDED before, and that opens no assignment of the asset.\<close>

lemma expended_unassigned_kept:
  assumes inv: "expended_unassigned aid d"
    and old: "\<forall>b'\<in>set (assets d'). asset_id b' = aid \<and> asset_status b' = EXPENDED
               \<longrightarrow> (\<exists>b\<in>set (assets d). asset_id b = aid \<and> asset_status b = EXPENDED)"
    and shut: "open_assignments aid d = [] \<Longrightarrow> open_assignments aid d' = []"
  shows "expended_unassigned aid d'"
  unfolding expended_unassigned_def
proof (intro ballI impI)
  fix b' assume "b' \<in> set (assets d')" and "asset_id b' = aid \<and> asset_status b' = EXPENDED"
  with old obtain b where "b \<in> set (assets d)" "asset_id b = aid \<and> asset_status b = EXPENDED"
    by blast
  with inv have "open_assignments aid d = []" by (auto simp: expended_unassigned_def)
  then show "open_assignments aid d' = []" by (rule shut)
qed

lemma expended_unassigned_assets_map:
  assumes inv: "expended_unassigned aid d"
    and m: "assets d' = map g (assets d)"
    and i: "\<And>b. asset_id (g b) = asset_id b"
    and s: "\<And>b. asset_status (g b) = EXPENDED \<Longrightarrow> asset_status b = EXPENDED"
    and g: "assignments d' = assignments d"
  shows "expended_unassigned aid d'"
proof (rule expended_unassigned_kept[OF inv])
  show "\<forall>b'\<in>set (assets d'). asset_id b' = aid \<and> asset_status b' = EXPENDED
               \<longrightarrow> (\<exists>b\<in>set (assets d). asset_id b = aid \<and> asset_status b = EXPENDED)"
    unfolding m using i s by auto
  show "open_assignments aid d' = []" if "open_assignments aid d = []"
    using that by (simp add: open_assignments_def g)
qed

lemma open_assignments_closing:
  assumes m: "assignments d' = map u (assignments d)"
    and a: "\<And>h. assignment_assetId (u h) = assignment_assetId h"
    and c: "\<And>h. assignment_returnedAt (u h) = None \<Longrightarrow> assignment_returnedAt h = None"
    and e: "open_assignments aid d = []"
  shows "open_assignments aid d' = []"
proof -
  have "\<not> (assignment_assetId (u h) = aid \<and> assignment_returnedAt (u h) = None)"
    if "h \<in> set (assignments d)" for h
  proof
    assume "assignment_assetId (u h) = aid \<and> assignment_returnedAt (u h) = None"
    then have "assignment_assetId h = aid \<and> assignment_returnedAt h = None"
      using a[of h] c[of h] by simp
    with that e show False by (auto simp: open_assignments_def filter_empty_conv)
  qed
  then show ?thesis unfolding open_assignments_def m by (auto simp: filter_empty_conv)
qed

text \<open>The handlers one by one. Only an asset update can write EXPENDED on an asset with
  an open assignment.\<close>

lemma approveTransfer_keeps_rule:
  assumes "expended_unassigned aid d" and "approveTransfer user i notes now d = (res, d')"
  shows "expended_unassigned aid d'"
proof -
  from assms(2) have "assets d' = assets d \<and> assignments d' = assignments d"
    by (auto simp: approveTransfer_def split: option.splits if_splits sum.splits
        dest!: transfer_update_Inr)
  with assms(1) show ?thesis by (simp add: expended_unassigned_def open_assignments_def)
qed

lemma completeTransfer_keeps_rule:
  assumes inv: "expended_unassigned aid d" and r: "completeTransfer user i now d = (res, d')"
  shows "expended_unassigned aid d'"
proof (cases "d' = d")
  case True
  with inv show ?thesis by simp
next
  case False
  let ?its = "items_of_transfer i d"
  from False r obtain t where b: "completeTransfer_body t ?its now d = Inr d'"
    by (auto simp: completeTransfer_def split: option.splits if_splits sum.splits)
  then obtain d1 where
    u: "transfer_update (transfer_id t)
          (\<lambda>t. t\<lparr>transfer_status := COMPLETED, transfer_completedAt := Some now\<rparr>) now d = Inr d1"
    and l: "update_item_assets
          (\<lambda>a. a\<lparr>asset_baseId := transfer_toBaseId t, asset_status := AVAILABLE\<rparr>) now ?its d1
          = Inr d'"
    by (auto simp: completeTransfer_body_def split: sum.splits)
  have a: "assets d' = map (\<lambda>b. if asset_id b \<in> item_assetId ` set ?its
            then b\<lparr>asset_baseId := transfer_toBaseId t, asset_status := AVAILABLE,
                   asset_updatedAt := now\<rparr> else b) (assets d)"
    and g: "assignments d' = assignments d"
    unfolding update_item_assets_Inr[OF l, simplified] transfer_update_Inr[OF u] by simp_all
  show ?thesis
    by (rule expended_unassigned_assets_map[OF inv a _ _ g]) (simp_all split: if_splits)
qed

lemma cancelTransfer_keeps_rule:
  assumes inv: "expended_unassigned aid d" and r: "cancelTransfer user i reason now d = (res, d')"
  shows "expended_unassigned aid d'"
proof (cases "d' = d")
  case True
  with inv show ?thesis by simp
next
  case False
  let ?its = "items_of_transfer i d"
  from False r obtain t where b: "cancelTransfer_body t ?its reason now d = Inr d'"
    by (auto simp: cancelTransfer_def split: option.splits if_splits sum.splits)
  then obtain d1 where
    u: "transfer_update (transfer_id t)
          (\<lambda>x. x\<lparr>transfer_status := CANCELLED,
                  transfer_notes := cancel_notes reason (transfer_notes t)\<rparr>) now d = Inr d1"
    and l: "update_item_assets (\<lambda>a. a\<lparr>asset_status := AVAILABLE\<rparr>) now ?its d1 = Inr d'"
    by (auto simp: cancelTransfer_body_def split: sum.splits)
  have a: "assets d' = map (\<lambda>b. if asset_id b \<in> item_assetId ` set ?its
            then b\<lparr>asset_status := AVAILABLE, asset_updatedAt := now\<rparr> else b) (assets d)"
    and g: "assignments d' = assignments d"
    unfolding update_item_assets_Inr[OF l, simplified] transfer_update_Inr[OF u] by simp_all
  show ?thesis
    by (rule expended_unassigned_assets_map[OF inv a _ _ g]) (simp_all split: if_splits)
qed

lemma createTransfer_keeps_rule:
  assumes inv: "expended_unassigned aid d"
    and r: "createTransfer user body codes now d = Some (res, d')"
  shows "expended_unassigned aid d'"
proof (cases "d' = d")
  case True
  with inv show ?thesis by simp
next
  case False
  with r obtain t where "createTransfer_body user body codes now d = Some (Inr (t, d'))"
    by (auto simp: createTransfer_def createTransfer_tx_def split: option.splits sum.splits)
  from createTransfer_body_Inr[OF this]
  have a: "assets d' = map (\<lambda>b. if asset_id b \<in> req_assetId ` set (ct_assets body)
                               then b\<lparr>asset_status := IN_TRANSIT, asset_updatedAt := now\<rparr> else b)
                        (assets d)"
    and g: "assignments d' = assignments d" by simp_all
  show ?thesis
    by (rule expended_unassigned_assets_map[OF inv a _ _ g]) (simp_all split: if_splits)
qed

lemma createAssignment_keeps_rule:
  assumes inv: "expended_unassigned aid d" and r: "createAssignment user body now d = (res, d')"
  shows "expended_unassigned aid d'"
proof (cases "d' = d")
  case True
  with inv show ?thesis by simp
next
  case False
  with r have "createAssignment_body user body (targetBaseId user (ca_baseId body)) now d = Inr d'"
    by (auto simp: createAssignment_def Let_def split: option.splits if_splits sum.splits)
  then obtain g where a: "assets d' = map (\<lambda>b. if asset_id b = ca_assetId body
        then b\<lparr>asset_status := ASSIGNED, asset_updatedAt := now\<rparr> else b) (assets d)"
    and g: "assignments d' = assignments d @ [g]" "assignment_assetId g = ca_assetId body"
    by (auto simp: createAssignment_body_def assignment_create_def dest!: asset_update_Inr)
  show ?thesis
  proof (cases "aid = ca_assetId body")
    case True
    then have "\<forall>b'\<in>set (assets d'). \<not> (asset_id b' = aid \<and> asset_status b' = EXPENDED)"
      unfolding a by auto
    then show ?thesis by (auto simp: expended_unassigned_def)
  next
    case False
    show ?thesis
    proof (rule expended_unassigned_kept[OF inv])
      show "\<forall>b'\<in>set (assets d'). asset_id b' = aid \<and> asset_status b' = EXPENDED
               \<longrightarrow> (\<exists>b\<in>set (assets d). asset_id b = aid \<and> asset_status b = EXPENDED)"
        unfolding a by (auto split: if_splits)
      show "open_assignments aid d' = []" if "open_assignments aid d = []"
        using that False g by (simp add: open_assignments_def)
    qed
  qed
qed

lemma returnAssignment_keeps_rule:
  assumes inv: "expended_unassigned aid d"
    and r: "returnAssignment user i notes condition now d = (res, d')"
  shows "expended_unassigned aid d'"
proof (cases "d' = d")
  case True
  with inv show ?thesis by simp
next
  case False
  with r obtain g where b: "returnAssignment_body g notes condition now d = Inr d'"
    by (auto simp: returnAssignment_def split: option.splits if_splits sum.splits)
  then obtain d1 where
    u: "assignment_update (assignment_id g)
             (\<lambda>h. h\<lparr>assignment_returnedAt := Some now,
                     assignment_notes := return_notes notes (assignment_notes g)\<rparr>) now d = Inr d1"
    and a: "asset_update (assignment_assetId g)
            (\<lambda>a. a\<lparr>asset_status := newStatus condition\<rparr>) now d1 = Inr d'"
    by (auto simp: returnAssignment_body_def split: sum.splits)
  let ?u = "\<lambda>h. if assignment_id h = assignment_id g
              then h\<lparr>assignment_returnedAt := Some now,
                     assignment_notes := return_notes notes (assignment_notes g),
                     assignment_updatedAt := now\<rparr> else h"
  have m: "assignments d' = map ?u (assignments d)"
    by (simp add: asset_update_Inr[OF a] assignment_update_Inr[OF u])
  have s: "assets d' = map (\<lambda>b. if asset_id b = assignment_assetId g
        then b\<lparr>asset_status := newStatus condition, asset_updatedAt := now\<rparr> else b) (assets d)"
    by (simp add: asset_update_Inr[OF a] assignment_update_Inr[OF u])
  have n: "newStatus condition \<noteq> EXPENDED" by (simp add: newStatus_def)
  show ?thesis
  proof (rule expended_unassigned_kept[OF inv])
    show "\<forall>b'\<in>set (assets d'). asset_id b' = aid \<and> asset_status b' = EXPENDED
               \<longrightarrow> (\<exists>b\<in>set (assets d). asset_id b = aid \<and> asset_status b = EXPENDED)"
      unfolding s using n by (auto split: if_splits)
    show "open_assignments aid d' = []" if "open_assignments aid d = []"
      using m _ _ that by (rule open_assignments_closing) (simp_all split: if_splits)
  qed
qed

lemma createExpenditure_keeps_rule:
  assumes wf: "wf_db d" and inv: "expended_unassigned aid d"
    and r: "createExpenditure user body now d = (res, d')"
  shows "expended_unassigned aid d'"
proof (cases "res_status res = 201")
  case False
  have "d' = d"
  proof (rule ccontr)
    assume "d' \<noteq> d"
    with createExpenditure_steps[OF r]
    have "res = Response 201 ''Expenditure recorded successfully''" by blast
    with False show False by simp
  qed
  with inv show ?thesis by simp
next
  case True
  let ?u = "\<lambda>h. if assignment_assetId h = ce_assetId body \<and> assignment_returnedAt h = None
                     then h\<lparr>assignment_returnedAt := Some now,
                            assignment_notes := Some (expended_notes (assignment_notes h)),
                            assignment_updatedAt := now\<rparr>
                     else h"
  from createExpenditure_result[OF wf r True]
  have a: "assets d' = map (\<lambda>b. if asset_id b = ce_assetId body
                               then b\<lparr>asset_status := EXPENDED, asset_updatedAt := now\<rparr> else b)
                        (assets d)"
    and m: "assignments d' = map ?u (assignments d)" by simp_all
  show ?thesis
  proof (cases "aid = ce_assetId body")
    case True
    have "open_assignments aid d' = []"
      unfolding open_assignments_def m True by (auto simp: filter_empty_conv)
    then show ?thesis by (simp add: expended_unassigned_def)
  next
    case False
    show ?thesis
    proof (rule expended_unassigned_kept[OF inv])
      show "\<forall>b'\<in>set (assets d'). asset_id b' = aid \<and> asset_status b' = EXPENDED
               \<longrightarrow> (\<exists>b\<in>set (assets d). asset_id b = aid \<and> asset_status b = EXPENDED)"
        unfolding a using False by (auto split: if_splits)
      show "open_assignments aid d' = []" if "open_assignments aid d = []"
        using m _ _ that by (rule open_assignments_closing) (simp_all split: if_splits)
    qed
  qed
qed

lemma createAsset_keeps_rule:
  assumes inv: "expended_unassigned aid d" and r: "createAsset user body now d = (res, d')"
  shows "expended_unassigned aid d'"
proof (cases "d' = d")
  case True
  with inv show ?thesis by simp
next
  case False
  with r have "asset_create body (targetBaseId user (cab_baseId body)) now d = Inr d'"
    by (auto simp: createAsset_def Let_def split: option.splits if_splits sum.splits)
  then obtain n where a: "assets d' = assets d @ [n]" "asset_status n = AVAILABLE"
    and g: "assignments d' = assignments d"
    by (auto simp: asset_create_def split: if_splits)
  show ?thesis
  proof (rule expended_unassigned_kept[OF inv])
    show "\<forall>b'\<in>set (assets d'). asset_id b' = aid \<and> asset_status b' = EXPENDED
               \<longrightarrow> (\<exists>b\<in>set (assets d). asset_id b = aid \<and> asset_status b = EXPENDED)"
      unfolding a(1) using a(2) by auto
    show "open_assignments aid d' = []" if "open_assignments aid d = []"
      using that by (simp add: open_assignments_def g)
  qed
qed

lemma updateAsset_keeps_rule:
  assumes inv: "expended_unassigned aid d" and r: "updateAsset user i body now d = (res, d')"
    and no: "ua_status body \<noteq> Some EXPENDED"
  shows "expended_unassigned aid d'"
proof (cases "d' = d")
  case True
  with inv show ?thesis by simp
next
  case False
  have i: "asset_id (updateData body b) = asset_id b" for b
    by (simp add: updateData_def Let_def split: option.splits)
  have s: "asset_status (updateData body b) = EXPENDED \<Longrightarrow> asset_status b = EXPENDED" for b
    using no by (auto simp: updateData_def Let_def split: option.splits)
  from False r have "asset_update i (updateData body) now d = Inr d'"
    by (auto simp: updateAsset_def split: option.splits if_splits sum.splits)
  from asset_update_Inr[OF this]
  have a: "assets d' = map (\<lambda>b. if asset_id b = i
            then (updateData body b)\<lparr>asset_updatedAt := now\<rparr> else b) (assets d)"
    and g: "assignments d' = assignments d" by simp_all
  show ?thesis
    by (rule expended_unassigned_assets_map[OF inv a _ _ g]) (auto simp: i dest: s split: if_splits)
qed

lemma deleteAsset_keeps_rule:
  assumes inv: "expended_unassigned aid d" and r: "deleteAsset user i d = (res, d')"
  shows "expended_unassigned aid d'"
proof (cases "d' = d")
  case True
  with inv show ?thesis by simp
next
  case False
  with r have d': "d' = d\<lparr>assets := filter (\<lambda>a. asset_id a \<noteq> i) (assets d)\<rparr>"
    by (auto simp: deleteAsset_def asset_delete_def split: option.splits if_splits)
  show ?thesis
    by (rule expended_unassigned_kept[OF inv]) (auto simp: d' open_assignments_def)
qed

text \<open>So the rule is kept by every request but an asset update that asks for EXPENDED,
  and by every list of such requests served in order.\<close>

lemma handle_keeps_wf:
  assumes "wf_db d" and "handle rq now d = Some (res, d')"
  shows "wf_db d'"
  using assms
  by (cases rq)
    (auto simp: route_def split: option.splits
      intro: createTransfer_keeps_wf approveTransfer_keeps_wf completeTransfer_keeps_wf
      cancelTransfer_keeps_wf createAssignment_keeps_wf returnAssignment_keeps_wf
      createExpenditure_keeps_wf createAsset_keeps_wf updateAsset_keeps_wf deleteAsset_keeps_wf)

lemma handle_keeps_rule:
  assumes "wf_db d" and "expended_unassigned aid d" and "handle rq now d = Some (res, d')"
    and "\<not> writes_expended rq"
  shows "expended_unassigned aid d'"
  using assms
  by (cases rq)
    (auto simp: route_def split: option.splits
      intro: createTransfer_keeps_rule approveTransfer_keeps_rule completeTransfer_keeps_rule
      cancelTransfer_keeps_rule createAssignment_keeps_rule returnAssignment_keeps_rule
      createExpenditure_keeps_rule createAsset_keeps_rule updateAsset_keeps_rule
      deleteAsset_keeps_rule)

lemma serve_keeps_rule:
  assumes "wf_db d" and "expended_unassigned aid d" and "serve qs d = Some (rs, d')"
    and "\<forall>q\<in>set qs. \<not> writes_expended (fst q)"
  shows "wf_db d' \<and> expended_unassigned aid d'"
  using assms
proof (induction qs arbitrary: d rs)
  case Nil
  then show ?case by simp
next
  case (Cons q qs)
  from Cons.prems(3) obtain res d1 rs1 where
    h: "handle (fst q) (snd q) d = Some (res, d1)" and s: "serve qs d1 = Some (rs1, d')"
    by (auto split: option.splits)
  from handle_keeps_wf[OF Cons.prems(1) h] have w1: "wf_db d1" .
  from handle_keeps_rule[OF Cons.prems(1,2) h] Cons.prems(4)
  have i1: "expended_unassigned aid d1" by simp
  from Cons.IH[OF w1 i1 s] Cons.prems(4) show ?case by simp
qed

subsection \<open>When the create handlers succeed\<close>

lemma createAsset_succeeds:
  assumes "find_base (targetBaseId user (cab_baseId body)) d \<noteq> None"
    and "find_asset_by_serial (cab_serialNumber body) d = None"
    and "asset_columns_ok body"
  shows "\<exists>d'. createAsset user body now d = (Response 201 ''Asset created successfully'', d')"
  using assms by (auto simp: createAsset_def asset_create_def Let_def)

lemma createAssignment_succeeds:
  assumes a: "find_asset (ca_assetId body) d = Some a"
    and "asset_baseId a = targetBaseId user (ca_baseId body)"
    and "asset_status a = AVAILABLE"
    and "open_assignments (ca_assetId body) d = []"
    and "find_user (ca_assignedToId body) d = Some u"
    and "user_baseId u = Some (targetBaseId user (ca_baseId body))"
  shows "\<exists>d'. createAssignment user body now d
           = (Response 201 ''Asset assigned successfully'', d')"
proof -
  have "\<exists>d2. createAssignment_body user body (targetBaseId user (ca_baseId body)) now d = Inr d2"
    unfolding createAssignment_body_def using a
    by (subst asset_update_succeeds) (simp_all add: find_asset_def assignment_create_def)
  with assms show ?thesis by (auto simp: createAssignment_def Let_def)
qed

lemma auto_return_frame:
  assumes "auto_return now gs d = Inr d'"
  shows "expenditures d' = expenditures d \<and> assets d' = assets d"
  using assms
proof (induction gs arbitrary: d)
  case Nil
  then show ?case by simp
next
  case (Cons g gs)
  from Cons.prems obtain d1 where
    u: "assignment_update (assignment_id g)
             (\<lambda>h. h\<lparr>assignment_returnedAt := Some now,
                     assignment_notes := Some (expended_notes (assignment_notes g))\<rparr>) now d = Inr d1"
    and rest: "auto_return now gs d1 = Inr d'"
    by (auto split: sum.splits)
  from Cons.IH[OF rest] show ?case unfolding assignment_update_Inr[OF u] by simp
qed

text \<open>The row of a successful \<^verbatim>\<open>createExpenditure\<close>, on any store.\<close>

lemma createExpenditure_row:
  assumes r: "createExpenditure user body now d = (res, d')" and ok: "res_status res = 201"
  shows "\<exists>e. expenditures d' = expenditures d @ [e]
           \<and> expenditure_assetId e = ce_assetId body
           \<and> expenditure_baseId e = targetBaseId user (ce_baseId body)"
proof -
  from createExpenditure_steps[OF r] ok obtain d0 d1 where
    c: "expenditure_create (ce_assetId body) (targetBaseId user (ce_baseId body))
          (quantity_default (ce_quantity body)) (ce_reason body) (ce_description body)
          (case date_or_null (ce_expendedAt body) of Some t \<Rightarrow> t | None \<Rightarrow> now)
          (user_id user) now d = Inr d0"
    and au: "asset_update (ce_assetId body) (\<lambda>a. a\<lparr>asset_status := EXPENDED\<rparr>) now d0 = Inr d1"
    and l: "auto_return now (open_assignments (ce_assetId body) d) d1 = Inr d'"
    by blast
  from auto_return_frame[OF l] have "expenditures d' = expenditures d0"
    unfolding asset_update_Inr[OF au] by simp
  with expenditure_create_Inr[OF c] show ?thesis by simp
qed

subsection \<open>Claim C1: assets in a terminal status\<close>

text \<open>
  C1 (counterexample). The claim lets no operation change the status of an EXPENDED or
  DECOMMISSIONED asset or record a new expenditure for it. \<^verbatim>\<open>createExpenditure\<close> only
  refuses an asset whose status is EXPENDED (\<^verbatim>\<open>asset.status === 'EXPENDED'\<close>): the
  decommissioned asset 13 is expended, its status changes and it gets an expenditure.
  \<^verbatim>\<open>updateAsset\<close> writes whatever status the request carries: the expended asset 14
  becomes AVAILABLE again.
\<close>

theorem terminal_status_changes_counterexample:
  "map_option asset_status (find_asset 13 sample_db) = Some DECOMMISSIONED
   \<and> res_status (fst (createExpenditure admin (expenditure_req 13 1) 7 sample_db)) = 201
   \<and> map_option asset_status
        (find_asset 13 (snd (createExpenditure admin (expenditure_req 13 1) 7 sample_db)))
       = Some EXPENDED
   \<and> expenditures_of_asset 13 sample_db = []
   \<and> length (expenditures_of_asset 13
        (snd (createExpenditure admin (expenditure_req 13 1) 7 sample_db))) = 1
   \<and> map_option asset_status (find_asset 14 sample_db) = Some EXPENDED
   \<and> res_status (fst (updateAsset admin 14 (status_update AVAILABLE) 7 sample_db)) = 200
   \<and> map_option asset_status
        (find_asset 14 (snd (updateAsset admin 14 (status_update AVAILABLE) 7 sample_db)))
       = Some AVAILABLE"
  by (simp add: createExpenditure_def createExpenditure_body_def updateAsset_def updateData_def
      find_asset_scoped_def targetBaseId_def quantity_default_def store_defs sample_defs)

text \<open>
  C1 (amended). For an asset of the store whose status is EXPENDED or DECOMMISSIONED,
  \<^verbatim>\<open>createAssignment\<close> for it is answered 400 and \<^verbatim>\<open>createTransfer\<close> with it among the
  requested assets is refused, and for an asset whose status is EXPENDED
  \<^verbatim>\<open>createExpenditure\<close> is answered 400; none of these calls changes the store. So an
  asset is not assigned, put in a transfer or expended again while its status is
  EXPENDED.
\<close>

theorem terminal_asset_guarded:
  assumes wf: "wf_db d" and a: "find_asset i d = Some a"
    and st: "asset_status a = EXPENDED \<or> asset_status a = DECOMMISSIONED"
  shows "(ca_assetId abody = i \<longrightarrow>
            res_status (fst (createAssignment user abody now d)) = 400
          \<and> snd (createAssignment user abody now d) = d)
       \<and> (i \<in> req_assetId ` set (ct_assets tbody) \<longrightarrow>
            (\<exists>r. createTransfer user tbody codes now d = Some (r, d) \<and> res_status r \<noteq> 201))
       \<and> (asset_status a = EXPENDED \<and> ce_assetId ebody = i \<longrightarrow>
            res_status (fst (createExpenditure user ebody now d)) = 400
          \<and> snd (createExpenditure user ebody now d) = d)"
proof -
  have 1: "ca_assetId abody = i \<longrightarrow>
            res_status (fst (createAssignment user abody now d)) = 400
          \<and> snd (createAssignment user abody now d) = d"
    using a st by (auto simp: createAssignment_def Let_def)
  have 2: "\<exists>r. createTransfer user tbody codes now d = Some (r, d) \<and> res_status r \<noteq> 201"
    if req: "i \<in> req_assetId ` set (ct_assets tbody)"
  proof (cases "createTransfer_validate user tbody d")
    case None
    from req obtain q where "q \<in> set (ct_assets tbody)" "req_assetId q = i" by auto
    with validate_None(6)[OF wf None] a have "asset_status a = AVAILABLE" by auto
    with st show ?thesis by simp
  next
    case (Some r)
    then have "res_status r \<noteq> 201"
      by (auto simp: createTransfer_validate_def Let_def split: if_splits)
    with Some show ?thesis by (simp add: createTransfer_def)
  qed
  have 3: "asset_status a = EXPENDED \<and> ce_assetId ebody = i \<longrightarrow>
            res_status (fst (createExpenditure user ebody now d)) = 400
          \<and> snd (createExpenditure user ebody now d) = d"
    using a by (auto simp: createExpenditure_def Let_def)
  from 1 2 3 show ?thesis by blast
qed

theorem terminal_asset_guarded_witness:
  "wf_db sample_db
   \<and> find_asset 14 sample_db = Some (mk_asset 14 ''AM-002'' EXPENDED 1)
   \<and> res_status (fst (createAssignment cmd_X (assignment_req 14 6 1) 9 sample_db)) = 400
   \<and> snd (createAssignment cmd_X (assignment_req 14 6 1) 9 sample_db) = sample_db
   \<and> (\<exists>r. createTransfer cmd_X (transfer_req [10, 14] 1 2) [''TRF-A''] 9 sample_db
             = Some (r, sample_db) \<and> res_status r \<noteq> 201)
   \<and> res_status (fst (createExpenditure cmd_X (expenditure_req 14 1) 9 sample_db)) = 400
   \<and> snd (createExpenditure cmd_X (expenditure_req 14 1) 9 sample_db) = sample_db"
proof -
  have w: "wf_db sample_db" by (simp add: wf_db_def sample_defs)
  have f: "find_asset 14 sample_db = Some (mk_asset 14 ''AM-002'' EXPENDED 1)"
    by (simp add: store_defs sample_defs)
  have st: "asset_status (mk_asset 14 ''AM-002'' EXPENDED 1) = EXPENDED
      \<or> asset_status (mk_asset 14 ''AM-002'' EXPENDED 1) = DECOMMISSIONED"
    by (simp add: mk_asset_def)
  have b: "ca_assetId (assignment_req 14 6 1) = 14"
    "14 \<in> req_assetId ` set (ct_assets (transfer_req [10, 14] 1 2))"
    "asset_status (mk_asset 14 ''AM-002'' EXPENDED 1) = EXPENDED
      \<and> ce_assetId (expenditure_req 14 1) = 14"
    by (simp_all add: sample_defs)
  from terminal_asset_guarded[OF w f st, of "assignment_req 14 6 1" cmd_X 9
      "transfer_req [10, 14] 1 2" "[''TRF-A'']" "expenditure_req 14 1"] b w f
  show ?thesis by simp
qed

subsection \<open>Claim C2: deleting an asset\<close>

text \<open>
  C2. The claim holds of \<^verbatim>\<open>deleteAsset\<close> except for one answer. For an asset of the
  store the delete succeeds if and only if the asset has no assignment at all (open or
  closed), no transfer item and no expenditure, and every other answer leaves the
  store as it was. An open assignment, a transfer item or an expenditure is answered
  400 with a message naming the rule, the conflict answer of this code base. But an
  asset whose only records are returned assignments passes the three checks of the
  handler, because its assignment check reads \<^verbatim>\<open>where: { returnedAt: null }\<close> while the
  checks of transfer items and expenditures are not filtered; the store then refuses
  the delete, and the handler's \<^verbatim>\<open>catch\<close> answers 500, the generic server error,
  where the claim asks for the conflict answer.
\<close>

theorem deleteAsset_closed_assignment_500:
  assumes "find_asset i d = Some a" and "deleteAsset user i d = (res, d')"
  shows "(res_status res = 200 \<longleftrightarrow>
            assignments_of_asset i d = [] \<and> items_of_asset i d = [] \<and> expenditures_of_asset i d = [])
       \<and> (res_status res = 200 \<longrightarrow> d' = d\<lparr>assets := filter (\<lambda>b. asset_id b \<noteq> i) (assets d)\<rparr>)
       \<and> (res_status res \<noteq> 200 \<longrightarrow> d' = d)
       \<and> (open_assignments i d \<noteq> [] \<longrightarrow>
            res = Response 400 ''Cannot delete asset with active assignments'')
       \<and> (open_assignments i d = [] \<and> items_of_asset i d \<noteq> [] \<longrightarrow>
            res = Response 400 ''Cannot delete asset with transfer history'')
       \<and> (open_assignments i d = [] \<and> items_of_asset i d = [] \<and> expenditures_of_asset i d \<noteq> [] \<longrightarrow>
            res = Response 400 ''Cannot delete asset with expenditure records'')
       \<and> (open_assignments i d = [] \<and> items_of_asset i d = [] \<and> expenditures_of_asset i d = []
            \<and> assignments_of_asset i d \<noteq> [] \<longrightarrow>
            res = Response 500 ''Server error deleting asset'')"
proof -
  have sub: "assignments_of_asset i d = [] \<Longrightarrow> open_assignments i d = []"
    by (auto simp: assignments_of_asset_def open_assignments_def filter_empty_conv)
  show ?thesis
    using assms sub
    by (auto simp: deleteAsset_def asset_delete_def split: if_splits)
qed

text \<open>Asset 13 of the sample store has one assignment, returned at time 3, and nothing
  else: the delete is refused with 500. Asset 11 has no record and is deleted.\<close>

theorem deleteAsset_closed_assignment_500_witness:
  "find_asset 13 sample_db = Some (mk_asset 13 ''AM-001'' DECOMMISSIONED 1)
   \<and> map (\<lambda>g. (assignment_id g, assignment_returnedAt g)) (assignments_of_asset 13 sample_db)
       = [(21, Some 3)]
   \<and> open_assignments 13 sample_db = [] \<and> items_of_asset 13 sample_db = []
   \<and> expenditures_of_asset 13 sample_db = []
   \<and> deleteAsset admin 13 sample_db = (Response 500 ''Server error deleting asset'', sample_db)
   \<and> deleteAsset admin 11 sample_db =
       (Response 200 ''Asset deleted successfully'',
        sample_db\<lparr>assets := filter (\<lambda>b. asset_id b \<noteq> 11) (assets sample_db)\<rparr>)"
proof -
  let ?r = "deleteAsset admin 13 sample_db"
  have f: "find_asset 13 sample_db = Some (mk_asset 13 ''AM-001'' DECOMMISSIONED 1)"
    by (simp add: find_asset_def sample_db_def mk_asset_def)
  have g: "map (\<lambda>g. (assignment_id g, assignment_returnedAt g)) (assignments_of_asset 13 sample_db)
       = [(21, Some 3)]"
    "open_assignments 13 sample_db = []" "items_of_asset 13 sample_db = []"
    "expenditures_of_asset 13 sample_db = []"
    by (simp_all add: assignments_of_asset_def open_assignments_def items_of_asset_def
        expenditures_of_asset_def sample_db_def mk_assignment_def)
  from g(1) have ne: "assignments_of_asset 13 sample_db \<noteq> []" by auto
  from deleteAsset_closed_assignment_500[OF f prod.collapse[symmetric], of admin] g(2-4) ne
  have "fst ?r = Response 500 ''Server error deleting asset''" and "snd ?r = sample_db"
    by auto
  then have r13: "?r = (Response 500 ''Server error deleting asset'', sample_db)"
    by (simp add: prod_eq_iff)
  have r11: "deleteAsset admin 11 sample_db =
       (Response 200 ''Asset deleted successfully'',
        sample_db\<lparr>assets := filter (\<lambda>b. asset_id b \<noteq> 11) (assets sample_db)\<rparr>)"
    by (simp add: deleteAsset_def asset_delete_def find_asset_def assignments_of_asset_def
      open_assignments_def items_of_asset_def expenditures_of_asset_def sample_db_def
      mk_asset_def mk_assignment_def)
  from f g r13 r11 show ?thesis by simp
qed
subsection \<open>Claim C3: creating a transfer\<close>

text \<open>
  C3. On a store that satisfies \<open>wf_db\<close> (unique keys, identifiers below the counter,
  items that belong to transfers), \<^verbatim>\<open>createTransfer\<close> answers 201 only
  if source and destination differ, both bases exist, and every requested asset is
  AVAILABLE at the source base. On success the store has exactly one more transfer, it
  is PENDING from the source to the destination base, there is exactly one new item per
  requested asset, all of this transfer, and exactly the requested assets have changed:
  they are IN_TRANSIT. With any other answer the store is the one the request found.
  The other answers are the early returns of the checks and the 500 of a transaction
  rolled back: once the checks are passed the answer is 201 exactly when the store
  admits the rows asked for, and 500 when it refuses one of them, at whatever point of
  the loop over the requested assets.
\<close>

theorem createTransfer_atomic:
  assumes "wf_db d" and "createTransfer user body codes now d = Some (res, d')"
  shows "(res_status res = 201 \<longrightarrow>
            ct_fromBaseId body \<noteq> ct_toBaseId body
          \<and> find_base (ct_fromBaseId body) d \<noteq> None \<and> find_base (ct_toBaseId body) d \<noteq> None
          \<and> (\<forall>r\<in>set (ct_assets body). \<exists>a. find_asset (req_assetId r) d = Some a
                \<and> asset_status a = AVAILABLE \<and> asset_baseId a = ct_fromBaseId body)
          \<and> (\<exists>t new. transfers d' = transfers d @ [t] \<and> transfer_status t = PENDING
                \<and> transfer_fromBaseId t = ct_fromBaseId body
                \<and> transfer_toBaseId t = ct_toBaseId body
                \<and> transferItems d' = transferItems d @ new
                \<and> map (\<lambda>it. (item_transferId it, item_assetId it)) new
                    = map (\<lambda>r. (transfer_id t, req_assetId r)) (ct_assets body))
          \<and> assets d' = map (\<lambda>b. if asset_id b \<in> req_assetId ` set (ct_assets body)
                                  then b\<lparr>asset_status := IN_TRANSIT, asset_updatedAt := now\<rparr>
                                  else b) (assets d)
          \<and> (\<forall>r\<in>set (ct_assets body). \<exists>a. find_asset (req_assetId r) d' = Some a
                \<and> asset_status a = IN_TRANSIT))
       \<and> (res_status res \<noteq> 201 \<longrightarrow> d' = d)
       \<and> (res_status res = 201 \<longleftrightarrow>
            createTransfer_validate user body d = None \<and> transfer_columns_ok body)
       \<and> (createTransfer_validate user body d = None \<and> \<not> transfer_columns_ok body \<longrightarrow>
            res = Response 500 ''Server error creating transfer'')"
proof (cases "createTransfer_validate user body d")
  case (Some r)
  then have "res = r" "d' = d" using assms(2) by (simp_all add: createTransfer_def)
  moreover have "res_status r \<noteq> 201"
    using Some by (auto simp: createTransfer_validate_def Let_def split: if_splits)
  ultimately show ?thesis using Some by simp
next
  case None
  note v = validate_None[OF assms(1) None]
  from None assms(2) have tx: "createTransfer_tx user body codes now d = Some (res, d')"
    by (simp add: createTransfer_def)
  have iff: "res_status res = 201 \<longleftrightarrow> transfer_columns_ok body"
  proof
    assume "res_status res = 201"
    with tx obtain t where "createTransfer_body user body codes now d = Some (Inr (t, d'))"
      by (auto simp: createTransfer_tx_def split: option.splits sum.splits)
    from createTransfer_body_columns[OF this] show "transfer_columns_ok body"
      by (simp add: transfer_columns_ok_def)
  next
    assume ok: "transfer_columns_ok body"
    from tx obtain code where "unique_code codes d = Some code"
      by (auto simp: createTransfer_tx_def createTransfer_body_def split: option.splits)
    from unique_code_Some[OF this] have "\<exists>c\<in>set codes. find_transfer_by_code c d = None"
      by blast
    from createTransfer_succeeds[OF assms(1) None ok this, of now] assms(2)
    show "res_status res = 201" by auto
  qed
  have refused: "\<not> transfer_columns_ok body \<longrightarrow> res = Response 500 ''Server error creating transfer''"
    using createTransfer_refused[OF None _ assms(2)] by blast
  show ?thesis
  proof (cases "res_status res = 201")
    case False
    with tx have "d' = d"
      by (auto simp: createTransfer_tx_def split: option.splits sum.splits)
    with False iff refused None show ?thesis by simp
  next
    case True
    with tx obtain t where b: "createTransfer_body user body codes now d = Some (Inr (t, d'))"
      by (auto simp: createTransfer_tx_def split: option.splits sum.splits)
    note e = createTransfer_body_Inr[OF b]
    let ?g = "\<lambda>b. if asset_id b \<in> req_assetId ` set (ct_assets body)
                 then b\<lparr>asset_status := IN_TRANSIT, asset_updatedAt := now\<rparr> else b"
    from e obtain new where new: "transferItems d' = transferItems d @ new"
      "map (\<lambda>it. (item_transferId it, item_assetId it, item_quantity it, item_notes it)) new
         = map (\<lambda>r. (next_id d, req_assetId r, quantity_or_1 (req_quantity r), req_notes r))
             (ct_assets body)"
      by blast
    have "map (\<lambda>it. (item_transferId it, item_assetId it)) new
            = map (\<lambda>q. (fst q, fst (snd q)))
                (map (\<lambda>it. (item_transferId it, item_assetId it, item_quantity it, item_notes it)) new)"
      by simp
    also have "\<dots> = map (\<lambda>r. (transfer_id t, req_assetId r)) (ct_assets body)"
      unfolding new(2) using e by simp
    finally have items: "map (\<lambda>it. (item_transferId it, item_assetId it)) new
            = map (\<lambda>r. (transfer_id t, req_assetId r)) (ct_assets body)" .
    have fa: "find_asset i d' = map_option ?g (find_asset i d)" for i
    proof -
      have "assets d' = map ?g (assets d)" using e by simp
      then show ?thesis unfolding find_asset_def by (simp add: find_map_same)
    qed
    have after: "\<forall>r\<in>set (ct_assets body). \<exists>a. find_asset (req_assetId r) d' = Some a
                \<and> asset_status a = IN_TRANSIT"
    proof
      fix r assume r: "r \<in> set (ct_assets body)"
      with v(6) obtain a where a: "find_asset (req_assetId r) d = Some a" by blast
      then have "asset_id a = req_assetId r"
        by (auto simp: find_asset_def dest: find_Some_iff[THEN iffD1])
      with a r show "\<exists>a. find_asset (req_assetId r) d' = Some a \<and> asset_status a = IN_TRANSIT"
        by (simp add: fa)
    qed
    from True iff have ok: "transfer_columns_ok body" by simp
    from True v e new(1) items after
    have "ct_fromBaseId body \<noteq> ct_toBaseId body
          \<and> find_base (ct_fromBaseId body) d \<noteq> None \<and> find_base (ct_toBaseId body) d \<noteq> None
          \<and> (\<forall>r\<in>set (ct_assets body). \<exists>a. find_asset (req_assetId r) d = Some a
                \<and> asset_status a = AVAILABLE \<and> asset_baseId a = ct_fromBaseId body)
          \<and> (\<exists>t new. transfers d' = transfers d @ [t] \<and> transfer_status t = PENDING
                \<and> transfer_fromBaseId t = ct_fromBaseId body
                \<and> transfer_toBaseId t = ct_toBaseId body
                \<and> transferItems d' = transferItems d @ new
                \<and> map (\<lambda>it. (item_transferId it, item_assetId it)) new
                    = map (\<lambda>r. (transfer_id t, req_assetId r)) (ct_assets body))
          \<and> assets d' = map (\<lambda>b. if asset_id b \<in> req_assetId ` set (ct_assets body)
                                  then b\<lparr>asset_status := IN_TRANSIT, asset_updatedAt := now\<rparr>
                                  else b) (assets d)
          \<and> (\<forall>r\<in>set (ct_assets body). \<exists>a. find_asset (req_assetId r) d' = Some a
                \<and> asset_status a = IN_TRANSIT)"
      by blast
    with True None ok show ?thesis by simp
  qed
qed

text \<open>On the sample store: the request for the assets 10 and 11 is answered 201; the
  request for 10 and 12 is answered 400 by the availability check; the request for 10
  and 11 with a quantity of 2147483648 for the second passes the checks and is rolled
  back after the transfer, the first item and the status of asset 10 were written
  (lemma \<open>createTransfer_rollback_partway\<close>).\<close>

theorem createTransfer_atomic_witness:
  "wf_db sample_db
   \<and> res_status (fst (the (createTransfer cmd_X (transfer_req [10, 11] 1 2) [''TRF-A''] 5 sample_db))) = 201
   \<and> map asset_status (assets (snd (the
        (createTransfer cmd_X (transfer_req [10, 11] 1 2) [''TRF-A''] 5 sample_db))))
       = [IN_TRANSIT, IN_TRANSIT, ASSIGNED, DECOMMISSIONED, EXPENDED]
   \<and> createTransfer cmd_X (transfer_req [10, 12] 1 2) [''TRF-A''] 5 sample_db
       = Some (Response 400 ''Some assets are not available for transfer'', sample_db)
   \<and> createTransfer_validate cmd_X overflow_transfer_req sample_db = None
   \<and> \<not> transfer_columns_ok overflow_transfer_req
   \<and> createTransfer cmd_X overflow_transfer_req [''TRF-A''] 5 sample_db
       = Some (Response 500 ''Server error creating transfer'', sample_db)"
proof -
  let ?c = "createTransfer cmd_X (transfer_req [10, 11] 1 2) [''TRF-A''] 5 sample_db"
  let ?o = "createTransfer cmd_X overflow_transfer_req [''TRF-A''] 5 sample_db"
  have w: "wf_db sample_db"
    by (simp add: wf_db_def sample_db_def mk_asset_def mk_assignment_def)
  have s: "\<exists>d'. ?c = Some (Response 201 ''Transfer created successfully'', d')"
    by (simp add: createTransfer_defs store_defs sample_defs)
  then obtain d' where c: "?c = Some (Response 201 ''Transfer created successfully'', d')" by blast
  from createTransfer_atomic[OF w c]
  have "assets d' = map (\<lambda>b. if asset_id b \<in> req_assetId ` set (ct_assets (transfer_req [10, 11] 1 2))
                                  then b\<lparr>asset_status := IN_TRANSIT, asset_updatedAt := 5\<rparr>
                                  else b) (assets sample_db)"
    by simp
  then have a: "map asset_status (assets d') = [IN_TRANSIT, IN_TRANSIT, ASSIGNED, DECOMMISSIONED, EXPENDED]"
    by (simp add: transfer_req_def sample_db_def mk_asset_def)
  have f: "createTransfer cmd_X (transfer_req [10, 12] 1 2) [''TRF-A''] 5 sample_db
       = Some (Response 400 ''Some assets are not available for transfer'', sample_db)"
    by (simp add: createTransfer_def createTransfer_validate_def
        find_base_def transfer_req_def sample_db_def mk_asset_def cmd_X_def base_X_def
        base_Y_def Let_def)
  have v: "createTransfer_validate cmd_X overflow_transfer_req sample_db = None"
    by (simp add: createTransfer_validate_def find_base_def overflow_transfer_req_def
        sample_db_def mk_asset_def cmd_X_def base_X_def base_Y_def Let_def)
  have n: "\<not> transfer_columns_ok overflow_transfer_req"
    by (simp add: transfer_columns_ok_def overflow_transfer_req_def quantity_or_1_def int32_def)
  have "\<exists>c\<in>set [''TRF-A'']. find_transfer_by_code c sample_db = None"
    by (simp add: find_transfer_by_code_def sample_db_def)
  from createTransfer_returns[OF this] obtain res e where o: "?o = Some (res, e)" by blast
  from createTransfer_atomic[OF w o] v n
  have "res = Response 500 ''Server error creating transfer''" and "e = sample_db" by auto
  with o have r: "?o = Some (Response 500 ''Server error creating transfer'', sample_db)" by simp
  from w c a f v n r show ?thesis by simp
qed
subsection \<open>Claim C4: create, approve, complete\<close>



subsection \<open>Claim C5: cancelling a transfer\<close>

text \<open>
  C5 (counterexample). The claim fails in two places. First, it says that cancelling
  leaves every field of a member asset but its status unchanged. The schema declares
  \<^verbatim>\<open>updatedAt DateTime @updatedAt\<close> on \<^verbatim>\<open>Asset\<close>, so the \<^verbatim>\<open>tx.asset.update\<close> of the
  cancellation also refreshes that field: asset 10, last updated at time 5 when the
  transfer was created, is updated at time 9 by the cancellation, and is not the old
  row with only its status replaced. Second, it says that the unchanged base is the
  source base. \<^verbatim>\<open>cancelTransfer\<close> does not read the base of a member asset; in the store
  \<open>moved_db\<close>, reached by five requests served one after the other, the member asset 10
  of the PENDING transfer 30 from base 1 is at base 2, and the cancellation of
  transfer 30 leaves it there.
\<close>

theorem cancelTransfer_frame_counterexample:
  "res_status (fst (cancelTransfer cmd_X trip_id None 9 trip_d1)) = 200
   \<and> find_asset 10 trip_d1 = Some ((mk_asset 10 ''VH-001'' IN_TRANSIT 1)\<lparr>asset_updatedAt := 5\<rparr>)
   \<and> find_asset 10 (snd (cancelTransfer cmd_X trip_id None 9 trip_d1))
       = Some ((mk_asset 10 ''VH-001'' AVAILABLE 1)\<lparr>asset_updatedAt := 9\<rparr>)
   \<and> (mk_asset 10 ''VH-001'' AVAILABLE 1)\<lparr>asset_updatedAt := 9\<rparr>
       \<noteq> (mk_asset 10 ''VH-001'' IN_TRANSIT 1)\<lparr>asset_updatedAt := 5, asset_status := AVAILABLE\<rparr>
   \<and> map res_status (fst (the (serve moved_requests sample_db))) = [201, 200, 201, 200, 200]
   \<and> map (\<lambda>t. (transfer_id t, transfer_fromBaseId t, transfer_status t)) (transfers moved_db)
       = [(30, 1, PENDING), (32, 1, COMPLETED)]
   \<and> map item_assetId (items_of_transfer 30 moved_db) = [10]
   \<and> res_status (fst (cancelTransfer cmd_X 30 None 10 moved_db)) = 200
   \<and> map (\<lambda>a. (asset_id a, asset_baseId a, asset_status a))
        (assets (snd (cancelTransfer cmd_X 30 None 10 moved_db)))
       = [(10, 2, AVAILABLE), (11, 1, AVAILABLE), (12, 1, ASSIGNED), (13, 1, DECOMMISSIONED),
          (14, 1, EXPENDED)]"
proof -
  have 1: "res_status (fst (cancelTransfer cmd_X trip_id None 9 trip_d1)) = 200
   \<and> find_asset 10 trip_d1 = Some ((mk_asset 10 ''VH-001'' IN_TRANSIT 1)\<lparr>asset_updatedAt := 5\<rparr>)
   \<and> find_asset 10 (snd (cancelTransfer cmd_X trip_id None 9 trip_d1))
       = Some ((mk_asset 10 ''VH-001'' AVAILABLE 1)\<lparr>asset_updatedAt := 9\<rparr>)
   \<and> (mk_asset 10 ''VH-001'' AVAILABLE 1)\<lparr>asset_updatedAt := 9\<rparr>
       \<noteq> (mk_asset 10 ''VH-001'' IN_TRANSIT 1)\<lparr>asset_updatedAt := 5, asset_status := AVAILABLE\<rparr>"
    by (simp add: cancelTransfer_def cancelTransfer_body_def trip_id_def trip_d1_def
        createTransfer_defs store_defs sample_defs)
  have 2: "map res_status (fst (the (serve moved_requests sample_db))) = [201, 200, 201, 200, 200]"
    by (simp add: moved_requests_def createTransfer_defs handler_defs store_defs sample_defs)
  have 3: "map (\<lambda>t. (transfer_id t, transfer_fromBaseId t, transfer_status t)) (transfers moved_db)
       = [(30, 1, PENDING), (32, 1, COMPLETED)]"
    "map item_assetId (items_of_transfer 30 moved_db) = [10]"
    by (simp_all add: moved_db_def moved_requests_def createTransfer_defs handler_defs store_defs
        sample_defs)
  have 4: "res_status (fst (cancelTransfer cmd_X 30 None 10 moved_db)) = 200
   \<and> map (\<lambda>a. (asset_id a, asset_baseId a, asset_status a))
        (assets (snd (cancelTransfer cmd_X 30 None 10 moved_db)))
       = [(10, 2, AVAILABLE), (11, 1, AVAILABLE), (12, 1, ASSIGNED), (13, 1, DECOMMISSIONED),
          (14, 1, EXPENDED)]"
    by (simp add: moved_db_def moved_requests_def createTransfer_defs handler_defs store_defs
        sample_defs)
  from 1 2 3 4 show ?thesis by simp
qed

text \<open>
  C5 (amended). \<^verbatim>\<open>cancelTransfer\<close> answers 200 only for a transfer that is PENDING or
  APPROVED. On success the transfer is CANCELLED (its notes extended by the reason,
  if one is given), and every member asset is the row it was with status AVAILABLE and
  the store-maintained \<^verbatim>\<open>updatedAt\<close> set to the time of the call: its base and every
  other field are unchanged. The base it keeps is the source base of the transfer
  whenever the asset was at the source base when the cancellation was called; this is
  so, in particular, when the transfer has just been created: then a caller entitled
  to act for the source base, giving a reason without the character U+0000 or none, is
  answered 200, and every requested asset is AVAILABLE at the source base. No other asset and no other table changes, and any other answer
  leaves the store as it was.
\<close>

theorem cancelTransfer_effect:
  assumes "cancelTransfer user i reason now d = (res, d')"
  shows "(res_status res = 200 \<longrightarrow>
            (\<exists>t. find_transfer i d = Some t
                \<and> (transfer_status t = PENDING \<or> transfer_status t = APPROVED)
                \<and> transfers d' = map (\<lambda>x. if transfer_id x = i
                      then x\<lparr>transfer_status := CANCELLED,
                             transfer_notes := cancel_notes reason (transfer_notes t),
                             transfer_updatedAt := now\<rparr>
                      else x) (transfers d))
          \<and> (\<exists>t'. find_transfer i d' = Some t' \<and> transfer_status t' = CANCELLED)
          \<and> assets d' = map (\<lambda>b. if asset_id b \<in> item_assetId ` set (items_of_transfer i d)
                                  then b\<lparr>asset_status := AVAILABLE, asset_updatedAt := now\<rparr>
                                  else b) (assets d)
          \<and> (\<forall>it\<in>set (items_of_transfer i d). \<exists>a a'.
                find_asset (item_assetId it) d = Some a \<and> find_asset (item_assetId it) d' = Some a'
                \<and> a' = a\<lparr>asset_status := AVAILABLE, asset_updatedAt := now\<rparr>
                \<and> asset_baseId a' = asset_baseId a
                \<and> (\<forall>t. find_transfer i d = Some t \<and> asset_baseId a = transfer_fromBaseId t
                        \<longrightarrow> asset_baseId a' = transfer_fromBaseId t))
          \<and> bases d' = bases d \<and> users d' = users d \<and> transferItems d' = transferItems d
          \<and> assignments d' = assignments d \<and> expenditures d' = expenditures d
          \<and> next_id d' = next_id d)
       \<and> (res_status res \<noteq> 200 \<longrightarrow> d' = d)
       \<and> (\<forall>u0 body codes now0 d0 r0.
             wf_db d0 \<and> createTransfer u0 body codes now0 d0 = Some (r0, d) \<and> res_status r0 = 201
             \<and> i = transfer_id (last (transfers d))
             \<and> \<not> (user_role user = BASE_COMMANDER \<and> user_baseId user \<noteq> Some (ct_fromBaseId body))
             \<and> text_opt_ok reason
             \<longrightarrow> res_status res = 200
               \<and> (\<forall>q\<in>set (ct_assets body). \<exists>a. find_asset (req_assetId q) d' = Some a
                     \<and> asset_baseId a = ct_fromBaseId body \<and> asset_status a = AVAILABLE)
               \<and> (\<exists>t'. find_transfer i d' = Some t' \<and> transfer_status t' = CANCELLED
                     \<and> transfer_fromBaseId t' = ct_fromBaseId body))"
proof -
  have frame: "(res_status res = 200 \<longrightarrow>
            (\<exists>t. find_transfer i d = Some t
                \<and> (transfer_status t = PENDING \<or> transfer_status t = APPROVED)
                \<and> transfers d' = map (\<lambda>x. if transfer_id x = i
                      then x\<lparr>transfer_status := CANCELLED,
                             transfer_notes := cancel_notes reason (transfer_notes t),
                             transfer_updatedAt := now\<rparr>
                      else x) (transfers d))
          \<and> (\<exists>t'. find_transfer i d' = Some t' \<and> transfer_status t' = CANCELLED)
          \<and> assets d' = map (\<lambda>b. if asset_id b \<in> item_assetId ` set (items_of_transfer i d)
                                  then b\<lparr>asset_status := AVAILABLE, asset_updatedAt := now\<rparr>
                                  else b) (assets d)
          \<and> (\<forall>it\<in>set (items_of_transfer i d). \<exists>a a'.
                find_asset (item_assetId it) d = Some a \<and> find_asset (item_assetId it) d' = Some a'
                \<and> a' = a\<lparr>asset_status := AVAILABLE, asset_updatedAt := now\<rparr>
                \<and> asset_baseId a' = asset_baseId a
                \<and> (\<forall>t. find_transfer i d = Some t \<and> asset_baseId a = transfer_fromBaseId t
                        \<longrightarrow> asset_baseId a' = transfer_fromBaseId t))
          \<and> bases d' = bases d \<and> users d' = users d \<and> transferItems d' = transferItems d
          \<and> assignments d' = assignments d \<and> expenditures d' = expenditures d
          \<and> next_id d' = next_id d)
       \<and> (res_status res \<noteq> 200 \<longrightarrow> d' = d)"
  proof (cases "res_status res = 200")
    case False
    with assms have "d' = d"
      by (auto simp: cancelTransfer_def split: option.splits if_splits sum.splits)
    with False show ?thesis by simp
  next
    case True
    let ?f = "\<lambda>a. a\<lparr>asset_status := AVAILABLE\<rparr>"
    let ?its = "items_of_transfer i d"
    from True assms obtain t where t: "find_transfer i d = Some t"
      and st: "transfer_status t = PENDING \<or> transfer_status t = APPROVED"
      and b: "cancelTransfer_body t ?its reason now d = Inr d'"
      by (auto simp: cancelTransfer_def split: option.splits if_splits sum.splits)
    from t have ti: "transfer_id t = i"
      by (auto simp: find_transfer_def dest: find_Some_iff[THEN iffD1])
    let ?h = "\<lambda>x. if transfer_id x = i
                        then x\<lparr>transfer_status := CANCELLED,
                               transfer_notes := cancel_notes reason (transfer_notes t),
                               transfer_updatedAt := now\<rparr>
                        else x"
    let ?g = "\<lambda>b. if asset_id b \<in> item_assetId ` set ?its
                                    then b\<lparr>asset_status := AVAILABLE, asset_updatedAt := now\<rparr>
                                    else b"
    from b obtain d1 where u: "transfer_update (transfer_id t)
               (\<lambda>x. x\<lparr>transfer_status := CANCELLED,
                       transfer_notes := cancel_notes reason (transfer_notes t)\<rparr>) now d = Inr d1"
      and l: "update_item_assets ?f now ?its d1 = Inr d'"
      by (auto simp: cancelTransfer_body_def split: sum.splits)
    have d1: "d1 = d\<lparr>transfers := map ?h (transfers d)\<rparr>"
      using transfer_update_Inr[OF u] ti by simp
    have d': "d' = d1\<lparr>assets := map ?g (assets d1)\<rparr>"
      using update_item_assets_Inr[OF l] by simp
    have ft: "find_transfer i d' = map_option ?h (find_transfer i d)"
      unfolding find_transfer_def d' d1 by (simp add: find_map_same)
    have fa: "find_asset j d' = map_option ?g (find_asset j d)" for j
      unfolding find_asset_def d' d1 by (simp add: find_map_same)
    have ex: "\<forall>it\<in>set ?its. find_asset (item_assetId it) d \<noteq> None"
      using update_item_assets_found[OF l] by (simp add: d1 find_asset_def)
    have members: "\<forall>it\<in>set ?its. \<exists>a a'.
                  find_asset (item_assetId it) d = Some a \<and> find_asset (item_assetId it) d' = Some a'
                  \<and> a' = a\<lparr>asset_status := AVAILABLE, asset_updatedAt := now\<rparr>
                  \<and> asset_baseId a' = asset_baseId a
                  \<and> (\<forall>t. find_transfer i d = Some t \<and> asset_baseId a = transfer_fromBaseId t
                          \<longrightarrow> asset_baseId a' = transfer_fromBaseId t)"
    proof
      fix it assume it: "it \<in> set ?its"
      with ex obtain a where a: "find_asset (item_assetId it) d = Some a" by auto
      then have "asset_id a = item_assetId it"
        by (auto simp: find_asset_def dest: find_Some_iff[THEN iffD1])
      with a it show "\<exists>a a'.
                  find_asset (item_assetId it) d = Some a \<and> find_asset (item_assetId it) d' = Some a'
                  \<and> a' = a\<lparr>asset_status := AVAILABLE, asset_updatedAt := now\<rparr>
                  \<and> asset_baseId a' = asset_baseId a
                  \<and> (\<forall>t. find_transfer i d = Some t \<and> asset_baseId a = transfer_fromBaseId t
                          \<longrightarrow> asset_baseId a' = transfer_fromBaseId t)"
        by (simp add: fa)
    qed
    from True t st ti ft members show ?thesis unfolding d' d1 by simp
  qed
  have fresh: "res_status res = 200
               \<and> (\<forall>q\<in>set (ct_assets body). \<exists>a. find_asset (req_assetId q) d' = Some a
                     \<and> asset_baseId a = ct_fromBaseId body \<and> asset_status a = AVAILABLE)
               \<and> (\<exists>t'. find_transfer i d' = Some t' \<and> transfer_status t' = CANCELLED
                     \<and> transfer_fromBaseId t' = ct_fromBaseId body)"
    if wf: "wf_db d0" and c: "createTransfer u0 body codes now0 d0 = Some (r0, d)"
      and ok: "res_status r0 = 201" and i: "i = transfer_id (last (transfers d))"
      and au: "\<not> (user_role user = BASE_COMMANDER \<and> user_baseId user \<noteq> Some (ct_fromBaseId body))"
    for u0 body codes now0 d0 r0
  proof -
    from createTransfer_created[OF wf c ok] i obtain t where t: "find_transfer i d = Some t"
      "transfer_status t = PENDING" "transfer_fromBaseId t = ct_fromBaseId body"
      and its: "item_assetId ` set (items_of_transfer i d) = req_assetId ` set (ct_assets body)"
      and mem: "\<forall>q\<in>set (ct_assets body). \<exists>a. find_asset (req_assetId q) d = Some a
                 \<and> asset_baseId a = ct_fromBaseId body \<and> asset_status a = IN_TRANSIT"
      by auto
    from t have ti: "transfer_id t = i"
      by (auto simp: find_transfer_def dest: find_Some_iff[THEN iffD1])
    have ex: "\<forall>it\<in>set (items_of_transfer i d). find_asset (item_assetId it) d \<noteq> None"
    proof
      fix it assume "it \<in> set (items_of_transfer i d)"
      then have "item_assetId it \<in> req_assetId ` set (ct_assets body)" using its by auto
      then obtain q where "q \<in> set (ct_assets body)" "item_assetId it = req_assetId q" by auto
      with mem show "find_asset (item_assetId it) d \<noteq> None" by auto
    qed
    let ?h = "\<lambda>x. if transfer_id x = i
                 then x\<lparr>transfer_status := CANCELLED,
                        transfer_notes := cancel_notes reason (transfer_notes t),
                        transfer_updatedAt := now\<rparr>
                 else x"
    let ?g = "\<lambda>b. if asset_id b \<in> item_assetId ` set (items_of_transfer i d)
                 then b\<lparr>asset_status := AVAILABLE, asset_updatedAt := now\<rparr>
                 else b"
    have "cancelTransfer user i reason now d =
           (Response 200 ''Transfer cancelled successfully'',
            d\<lparr>transfers := map ?h (transfers d), assets := map ?g (assets d)\<rparr>)"
      by (rule cancelTransfer_ok[OF t(1) _ _ ex]) (use t au in simp_all)
    with assms have res: "res = Response 200 ''Transfer cancelled successfully''"
      and d': "d' = d\<lparr>transfers := map ?h (transfers d), assets := map ?g (assets d)\<rparr>"
      by simp_all
    have ft: "find_transfer i d' = map_option ?h (find_transfer i d)"
      unfolding find_transfer_def d' by (simp add: find_map_same)
    have fa: "find_asset j d' = map_option ?g (find_asset j d)" for j
      unfolding find_asset_def d' by (simp add: find_map_same)
    have atsrc: "\<forall>q\<in>set (ct_assets body). \<exists>a. find_asset (req_assetId q) d' = Some a
                     \<and> asset_baseId a = ct_fromBaseId body \<and> asset_status a = AVAILABLE"
    proof
      fix q assume q: "q \<in> set (ct_assets body)"
      with mem obtain a where a: "find_asset (req_assetId q) d = Some a"
        "asset_baseId a = ct_fromBaseId body" by blast
      then have "asset_id a = req_assetId q"
        by (auto simp: find_asset_def dest: find_Some_iff[THEN iffD1])
      moreover have "req_assetId q \<in> item_assetId ` set (items_of_transfer i d)"
        using q its by simp
      ultimately show "\<exists>a. find_asset (req_assetId q) d' = Some a
                     \<and> asset_baseId a = ct_fromBaseId body \<and> asset_status a = AVAILABLE"
        using a by (simp add: fa)
    qed
    from res ft t ti atsrc show ?thesis by simp
  qed
  from frame fresh show ?thesis by blast
qed

text \<open>The transfer of the assets 10 and 11 from base 1, cancelled by the commander of
  base 1 right after its creation.\<close>

theorem cancelTransfer_effect_witness:
  "wf_db sample_db
   \<and> createTransfer cmd_X (transfer_req [10, 11] 1 2) [''TRF-A''] 5 sample_db
       = Some (Response 201 ''Transfer created successfully'', trip_d1)
   \<and> trip_id = transfer_id (last (transfers trip_d1))
   \<and> res_status (fst (cancelTransfer cmd_X trip_id None 9 trip_d1)) = 200
   \<and> map (\<lambda>a. (asset_id a, asset_baseId a, asset_status a))
        (assets (snd (cancelTransfer cmd_X trip_id None 9 trip_d1)))
       = [(10, 1, AVAILABLE), (11, 1, AVAILABLE), (12, 1, ASSIGNED), (13, 1, DECOMMISSIONED),
          (14, 1, EXPENDED)]
   \<and> (\<exists>t'. find_transfer trip_id (snd (cancelTransfer cmd_X trip_id None 9 trip_d1)) = Some t'
          \<and> transfer_status t' = CANCELLED \<and> transfer_fromBaseId t' = 1)"
proof -
  let ?r = "cancelTransfer cmd_X trip_id None 9 trip_d1"
  have w: "wf_db sample_db" by (simp add: wf_db_def sample_defs)
  have its: "items_of_transfer trip_id trip_d1 = transferItems trip_d1"
    using trip_d1_fields(3) by (auto simp: items_of_transfer_def filter_id_conv trip_d1_fields(4))
  have ids: "item_assetId ` set (transferItems trip_d1) = {10, 11}"
  proof -
    have "map item_assetId (transferItems trip_d1)
         = map snd (map (\<lambda>it. (item_transferId it, item_assetId it)) (transferItems trip_d1))"
      by simp
    also have "\<dots> = [10, 11]" unfolding trip_d1_fields(3) by simp
    finally have "set (map item_assetId (transferItems trip_d1)) = set [10, 11]" by simp
    then show ?thesis by simp
  qed
  have au: "\<not> (user_role cmd_X = BASE_COMMANDER
             \<and> user_baseId cmd_X \<noteq> Some (ct_fromBaseId (transfer_req [10, 11] 1 2)))"
    "ct_fromBaseId (transfer_req [10, 11] 1 2) = 1"
    by (simp_all add: cmd_X_def transfer_req_def)
  note eff = cancelTransfer_effect[OF prod.collapse[symmetric], of cmd_X trip_id None 9 trip_d1]
  have i: "trip_id = transfer_id (last (transfers trip_d1))" by (simp add: trip_id_def)
  have ok: "res_status (Response 201 ''Transfer created successfully'') = 201"
    "text_opt_ok None" by (simp_all add: text_opt_ok_def)
  from eff[THEN conjunct2, THEN conjunct2, rule_format, of sample_db cmd_X
      "transfer_req [10, 11] 1 2" "[''TRF-A'']" 5 "Response 201 ''Transfer created successfully''"]
    w trip_d1_created ok i au(1)
  have s: "res_status (fst ?r) = 200"
    and t: "\<exists>t'. find_transfer trip_id (snd ?r) = Some t' \<and> transfer_status t' = CANCELLED
          \<and> transfer_fromBaseId t' = ct_fromBaseId (transfer_req [10, 11] 1 2)"
    by blast+
  from eff s
  have "assets (snd ?r) = map (\<lambda>b. if asset_id b \<in> item_assetId ` set (items_of_transfer trip_id trip_d1)
                                  then b\<lparr>asset_status := AVAILABLE, asset_updatedAt := 9\<rparr>
                                  else b) (assets trip_d1)"
    by blast
  then have a: "map (\<lambda>a. (asset_id a, asset_baseId a, asset_status a)) (assets (snd ?r))
       = [(10, 1, AVAILABLE), (11, 1, AVAILABLE), (12, 1, ASSIGNED), (13, 1, DECOMMISSIONED),
          (14, 1, EXPENDED)]"
    unfolding its ids trip_d1_fields(1) by (simp add: mk_asset_def)
  from w trip_d1_created s a t au(2) i show ?thesis by simp
qed
subsection \<open>Claim C6: an expenditure closes the open assignment\<close>

text \<open>
  C6 (counterexample). The claim ends with ``afterwards the asset is never
  simultaneously EXPENDED and actively assigned''. An asset update writes whatever
  status the request names. Four requests served one after the other on the sample
  store: asset 12 is expended (its assignment 20 is closed), an asset update sets it
  AVAILABLE, it is assigned again (assignment 31), and a second asset update sets it
  EXPENDED. Every request is answered with success, and asset 12 ends EXPENDED with
  the open assignment 31.
\<close>

theorem expended_and_assigned_counterexample:
  "map res_status (fst (the (serve reexpended_requests sample_db))) = [201, 200, 201, 200]
   \<and> map (\<lambda>a. (asset_id a, asset_status a))
        (filter (\<lambda>a. asset_id a = 12) (assets (snd (the (serve reexpended_requests sample_db)))))
       = [(12, EXPENDED)]
   \<and> map (\<lambda>g. (assignment_id g, assignment_returnedAt g))
        (open_assignments 12 (snd (the (serve reexpended_requests sample_db))))
       = [(31, None)]"
  by (simp add: reexpended_requests_def handler_defs store_defs sample_defs expended_notes_def
      trim_def white_space_def str_or_empty_def)

text \<open>
  C6 (amended). For an asset of a store that satisfies \<open>wf_db\<close>,
  \<^verbatim>\<open>createExpenditure\<close> answers 201 exactly
  when the asset is at the target base and not yet EXPENDED and the store admits the
  expenditure row (a quantity of 32 bits, texts without U+0000). The successful call
  writes, in its one transaction, the expenditure row and the status EXPENDED, and
  gives every assignment of the asset that was open a \<^verbatim>\<open>returnedAt\<close> (the time of the
  call) and notes that end with the text ``Asset expended - automatic return''; no
  other assignment changes. In the resulting store the asset is EXPENDED and has no
  open assignment, and it is not both EXPENDED and actively assigned after any
  requests served later, one after the other, as long as none of them is an asset
  update that asks for the status EXPENDED. Any other answer leaves the store as it
  was.
\<close>

theorem createExpenditure_closes_assignment:
  assumes wf: "wf_db d" and a: "find_asset (ce_assetId body) d = Some a"
    and r: "createExpenditure user body now d = (res, d')"
  shows "(res_status res = 201 \<longleftrightarrow>
            asset_baseId a = targetBaseId user (ce_baseId body) \<and> asset_status a \<noteq> EXPENDED
            \<and> expenditure_columns_ok body)
       \<and> (res_status res = 201 \<longrightarrow>
            (\<exists>a'. find_asset (ce_assetId body) d' = Some a' \<and> asset_status a' = EXPENDED)
          \<and> (\<exists>e. expenditures d' = expenditures d @ [e]
                 \<and> expenditure_assetId e = ce_assetId body)
          \<and> assignments d' =
               map (\<lambda>h. if assignment_assetId h = ce_assetId body \<and> assignment_returnedAt h = None
                        then h\<lparr>assignment_returnedAt := Some now,
                               assignment_notes := Some (expended_notes (assignment_notes h)),
                               assignment_updatedAt := now\<rparr>
                        else h) (assignments d)
          \<and> open_assignments (ce_assetId body) d' = []
          \<and> (\<forall>qs rs d''. serve qs d' = Some (rs, d'')
                 \<and> (\<forall>q\<in>set qs. \<not> writes_expended (fst q))
                 \<longrightarrow> expended_unassigned (ce_assetId body) d''))
       \<and> (\<exists>p. expended_notes old = p @ ''Asset expended - automatic return'')
       \<and> (res_status res \<noteq> 201 \<longrightarrow> d' = d)"
proof -
  let ?aid = "ce_assetId body"
  let ?tb = "targetBaseId user (ce_baseId body)"
  let ?u = "\<lambda>h. if assignment_assetId h = ?aid \<and> assignment_returnedAt h = None
                        then h\<lparr>assignment_returnedAt := Some now,
                               assignment_notes := Some (expended_notes (assignment_notes h)),
                               assignment_updatedAt := now\<rparr>
                        else h"
  from a have ai: "asset_id a = ?aid"
    by (auto simp: find_asset_def dest: find_Some_iff[THEN iffD1])
  have iff: "res_status res = 201 \<longleftrightarrow>
            asset_baseId a = ?tb \<and> asset_status a \<noteq> EXPENDED \<and> expenditure_columns_ok body"
  proof
    assume ok: "res_status res = 201"
    from createExpenditure_steps[OF r] ok a
    have "asset_baseId a = ?tb \<and> asset_status a \<noteq> EXPENDED" by auto
    with createExpenditure_result[OF wf r ok]
    show "asset_baseId a = ?tb \<and> asset_status a \<noteq> EXPENDED \<and> expenditure_columns_ok body"
      by simp
  next
    assume "asset_baseId a = ?tb \<and> asset_status a \<noteq> EXPENDED \<and> expenditure_columns_ok body"
    with createExpenditure_succeeds[OF a, of user now] r show "res_status res = 201" by auto
  qed
  have fail: "res_status res \<noteq> 201 \<longrightarrow> d' = d"
  proof
    assume n: "res_status res \<noteq> 201"
    show "d' = d"
    proof (rule ccontr)
      assume "d' \<noteq> d"
      with createExpenditure_steps[OF r]
      have "res = Response 201 ''Expenditure recorded successfully''" by blast
      with n show False by simp
    qed
  qed
  have eff: "(\<exists>a'. find_asset ?aid d' = Some a' \<and> asset_status a' = EXPENDED)
          \<and> (\<exists>e. expenditures d' = expenditures d @ [e] \<and> expenditure_assetId e = ?aid)
          \<and> assignments d' = map ?u (assignments d)
          \<and> open_assignments ?aid d' = []
          \<and> (\<forall>qs rs d''. serve qs d' = Some (rs, d'')
                 \<and> (\<forall>q\<in>set qs. \<not> writes_expended (fst q))
                 \<longrightarrow> expended_unassigned ?aid d'')"
    if ok: "res_status res = 201"
  proof -
    note e = createExpenditure_result[OF wf r ok]
    let ?g = "\<lambda>b. if asset_id b = ?aid then b\<lparr>asset_status := EXPENDED, asset_updatedAt := now\<rparr>
               else b"
    have "assets d' = map ?g (assets d)" using e by simp
    then have "find_asset ?aid d' = map_option ?g (find_asset ?aid d)"
      unfolding find_asset_def by (simp add: find_map_same)
    with a ai have 1: "\<exists>a'. find_asset ?aid d' = Some a' \<and> asset_status a' = EXPENDED" by simp
    from e have 2: "\<exists>e. expenditures d' = expenditures d @ [e] \<and> expenditure_assetId e = ?aid"
      by blast
    from e have 3: "assignments d' = map ?u (assignments d)" by simp
    have 4: "open_assignments ?aid d' = []"
      unfolding open_assignments_def 3 by (auto simp: filter_empty_conv)
    have w': "wf_db d'" using wf r by (rule createExpenditure_keeps_wf)
    have i': "expended_unassigned ?aid d'" using 4 by (simp add: expended_unassigned_def)
    have 5: "\<forall>qs rs d''. serve qs d' = Some (rs, d'')
                 \<and> (\<forall>q\<in>set qs. \<not> writes_expended (fst q))
                 \<longrightarrow> expended_unassigned ?aid d''"
      using serve_keeps_rule[OF w' i'] by blast
    from 1 2 3 4 5 show ?thesis by blast
  qed
  from iff eff fail expended_notes_text[of old] show ?thesis by blast
qed

text \<open>On the sample store: asset 12 is ASSIGNED with the open assignment 20. The
  expenditure is recorded, and the asset stays EXPENDED and without an open assignment
  when an assignment and a transfer are requested for it afterwards (both refused).\<close>

theorem createExpenditure_closes_assignment_witness:
  "wf_db sample_db
   \<and> find_asset 12 sample_db = Some (mk_asset 12 ''WP-001'' ASSIGNED 1)
   \<and> map assignment_id (open_assignments 12 sample_db) = [20]
   \<and> res_status (fst (createExpenditure admin (expenditure_req 12 1) 7 sample_db)) = 201
   \<and> (\<exists>a'. find_asset 12 (snd (createExpenditure admin (expenditure_req 12 1) 7 sample_db)) = Some a'
          \<and> asset_status a' = EXPENDED)
   \<and> map (\<lambda>g. (assignment_id g, assignment_returnedAt g, assignment_notes g))
        (assignments (snd (createExpenditure admin (expenditure_req 12 1) 7 sample_db)))
       = [(20, Some 7, Some ''Asset expended - automatic return''), (21, Some 3, None)]
   \<and> open_assignments 12 (snd (createExpenditure admin (expenditure_req 12 1) 7 sample_db)) = []
   \<and> map res_status (fst (the (serve later_requests
        (snd (createExpenditure admin (expenditure_req 12 1) 7 sample_db))))) = [400, 400]
   \<and> expended_unassigned 12 (snd (the (serve later_requests
        (snd (createExpenditure admin (expenditure_req 12 1) 7 sample_db)))))"
proof -
  let ?r = "createExpenditure admin (expenditure_req 12 1) 7 sample_db"
  have w: "wf_db sample_db" by (simp add: wf_db_def sample_defs)
  have b: "ce_assetId (expenditure_req 12 1) = 12"
    "targetBaseId admin (ce_baseId (expenditure_req 12 1)) = 1"
    by (simp_all add: expenditure_req_def targetBaseId_def admin_def)
  have f: "find_asset (ce_assetId (expenditure_req 12 1)) sample_db
      = Some (mk_asset 12 ''WP-001'' ASSIGNED 1)"
    by (simp add: store_defs sample_defs)
  have o: "map assignment_id (open_assignments 12 sample_db) = [20]"
    by (simp add: store_defs sample_defs)
  have n: "expended_notes None = ''Asset expended - automatic return''"
    by (simp add: expended_notes_def trim_def white_space_def str_or_empty_def)
  have st: "asset_baseId (mk_asset 12 ''WP-001'' ASSIGNED 1) = 1"
    "asset_status (mk_asset 12 ''WP-001'' ASSIGNED 1) \<noteq> EXPENDED"
    "expenditure_columns_ok (expenditure_req 12 1)"
    by (simp_all add: mk_asset_def expenditure_columns_ok_def expenditure_req_def
        quantity_default_def int32_def text_ok_def text_opt_ok_def)
  have l: "\<exists>rs d''. serve later_requests (snd ?r) = Some (rs, d'') \<and> map res_status rs = [400, 400]"
    by (simp add: later_requests_def createTransfer_defs handler_defs store_defs sample_defs
        expended_notes_def trim_def white_space_def str_or_empty_def)
  then obtain rs d'' where s: "serve later_requests (snd ?r) = Some (rs, d'')"
    and rs: "map res_status rs = [400, 400]" by (elim exE conjE)
  have nw: "\<forall>q\<in>set later_requests. \<not> writes_expended (fst q)"
    by (simp add: later_requests_def)
  from createExpenditure_closes_assignment[OF w f prod.collapse[symmetric], of admin 7] st
  have 1: "res_status (fst ?r) = 201"
    and 2: "\<exists>a'. find_asset 12 (snd ?r) = Some a' \<and> asset_status a' = EXPENDED"
    and 3: "assignments (snd ?r) =
               map (\<lambda>h. if assignment_assetId h = 12 \<and> assignment_returnedAt h = None
                        then h\<lparr>assignment_returnedAt := Some 7,
                               assignment_notes := Some (expended_notes (assignment_notes h)),
                               assignment_updatedAt := 7\<rparr>
                        else h) (assignments sample_db)"
    and 4: "open_assignments 12 (snd ?r) = []"
    and 5: "\<forall>qs rs d''. serve qs (snd ?r) = Some (rs, d'')
                 \<and> (\<forall>q\<in>set qs. \<not> writes_expended (fst q))
                 \<longrightarrow> expended_unassigned 12 d''"
    unfolding b by blast+
  from 5 s nw have 6: "expended_unassigned 12 d''" by blast
  from 3 have 7: "map (\<lambda>g. (assignment_id g, assignment_returnedAt g, assignment_notes g))
        (assignments (snd ?r))
       = [(20, Some 7, Some ''Asset expended - automatic return''), (21, Some 3, None)]"
    using n by (simp add: sample_db_def mk_assignment_def)
  from w f o 1 2 7 4 s rs 6 show ?thesis unfolding b by simp
qed
subsection \<open>Claim C7: returning an assignment\<close>

text \<open>
  C7. On a store in which every asset has at most one open assignment,
  \<^verbatim>\<open>returnAssignment\<close> answers 200 only for an assignment (visible to the caller) that
  is open, and it is then the one open assignment of its asset. On success the
  assignment gets \<^verbatim>\<open>returnedAt\<close>, the asset gets the status \<^verbatim>\<open>newStatus condition\<close>,
  which is AVAILABLE for GOOD, MAINTENANCE for DAMAGED and for NEEDS_MAINTENANCE, and
  DECOMMISSIONED for DECOMMISSIONED, and a second return of the same assignment is
  answered 400 ``Asset has already been returned'' without any change. The same answer
  is given for every assignment found already returned, and any answer but 200 leaves
  the store as it was.
\<close>

theorem returnAssignment_rules:
  assumes inv: "one_open_assignment d"
    and r: "returnAssignment user i notes condition now d = (res, d')"
  shows "(res_status res = 200 \<longrightarrow>
            (\<exists>g. find_assignment_scoped user i d = Some g \<and> assignment_returnedAt g = None
               \<and> open_assignments (assignment_assetId g) d = [g]
               \<and> assignments d' = map (\<lambda>h. if assignment_id h = i
                      then h\<lparr>assignment_returnedAt := Some now,
                             assignment_notes := return_notes notes (assignment_notes g),
                             assignment_updatedAt := now\<rparr>
                      else h) (assignments d)
               \<and> (\<exists>g'. find_assignment_scoped user i d' = Some g'
                      \<and> assignment_returnedAt g' = Some now)
               \<and> (\<exists>a'. find_asset (assignment_assetId g) d' = Some a'
                      \<and> asset_status a' = newStatus condition))
          \<and> returnAssignment user i notes2 condition2 now2 d'
               = (Response 400 ''Asset has already been returned'', d'))
       \<and> (res_status res \<noteq> 200 \<longrightarrow> d' = d)
       \<and> (\<forall>g. find_assignment_scoped user i d = Some g \<and> assignment_returnedAt g \<noteq> None \<longrightarrow>
             res = Response 400 ''Asset has already been returned'')
       \<and> newStatus (Some ''GOOD'') = AVAILABLE
       \<and> newStatus (Some ''DAMAGED'') = MAINTENANCE
       \<and> newStatus (Some ''NEEDS_MAINTENANCE'') = MAINTENANCE
       \<and> newStatus (Some ''DECOMMISSIONED'') = DECOMMISSIONED"
proof -
  have tags: "newStatus (Some ''GOOD'') = AVAILABLE" "newStatus (Some ''DAMAGED'') = MAINTENANCE"
    "newStatus (Some ''NEEDS_MAINTENANCE'') = MAINTENANCE"
    "newStatus (Some ''DECOMMISSIONED'') = DECOMMISSIONED"
    by (simp_all add: newStatus_def)
  have fail: "res_status res \<noteq> 200 \<longrightarrow> d' = d"
    using r by (auto simp: returnAssignment_def split: option.splits if_splits sum.splits)
  have again: "\<forall>g. find_assignment_scoped user i d = Some g \<and> assignment_returnedAt g \<noteq> None \<longrightarrow>
             res = Response 400 ''Asset has already been returned''"
    using r by (auto simp: returnAssignment_def)
  have ok: "(\<exists>g. find_assignment_scoped user i d = Some g \<and> assignment_returnedAt g = None
               \<and> open_assignments (assignment_assetId g) d = [g]
               \<and> assignments d' = map (\<lambda>h. if assignment_id h = i
                      then h\<lparr>assignment_returnedAt := Some now,
                             assignment_notes := return_notes notes (assignment_notes g),
                             assignment_updatedAt := now\<rparr>
                      else h) (assignments d)
               \<and> (\<exists>g'. find_assignment_scoped user i d' = Some g'
                      \<and> assignment_returnedAt g' = Some now)
               \<and> (\<exists>a'. find_asset (assignment_assetId g) d' = Some a'
                      \<and> asset_status a' = newStatus condition))
          \<and> returnAssignment user i notes2 condition2 now2 d'
               = (Response 400 ''Asset has already been returned'', d')"
    if s: "res_status res = 200"
  proof -
    from s r obtain g where g: "find_assignment_scoped user i d = Some g"
      and op: "assignment_returnedAt g = None"
      and b: "returnAssignment_body g notes condition now d = Inr d'"
      by (auto simp: returnAssignment_def split: option.splits if_splits sum.splits)
    from g have gi: "assignment_id g = i" and gin: "g \<in> set (assignments d)"
      by (auto simp: find_assignment_scoped_def find_Some_iff in_set_conv_nth)
    let ?u = "\<lambda>h. if assignment_id h = i
                      then h\<lparr>assignment_returnedAt := Some now,
                             assignment_notes := return_notes notes (assignment_notes g),
                             assignment_updatedAt := now\<rparr>
                      else h"
    let ?k = "\<lambda>b. if asset_id b = assignment_assetId g
                then b\<lparr>asset_status := newStatus condition, asset_updatedAt := now\<rparr> else b"
    from b obtain d1 where u: "assignment_update (assignment_id g)
             (\<lambda>h. h\<lparr>assignment_returnedAt := Some now,
                     assignment_notes := return_notes notes (assignment_notes g)\<rparr>) now d = Inr d1"
      and au: "asset_update (assignment_assetId g)
            (\<lambda>a. a\<lparr>asset_status := newStatus condition\<rparr>) now d1 = Inr d'"
      by (auto simp: returnAssignment_body_def split: sum.splits)
    have d1: "d1 = d\<lparr>assignments := map ?u (assignments d)\<rparr>"
      using assignment_update_Inr[OF u] gi by simp
    have d': "d' = d1\<lparr>assets := map ?k (assets d1)\<rparr>"
      using asset_update_Inr[OF au] by simp
    \<comment> \<open>exactly one open assignment\<close>
    have "g \<in> set (open_assignments (assignment_assetId g) d)"
      using gin op by (simp add: open_assignments_def)
    moreover have "length (open_assignments (assignment_assetId g) d) \<le> 1"
      using inv gin by (simp add: one_open_assignment_def)
    ultimately have one: "open_assignments (assignment_assetId g) d = [g]"
      by (cases "open_assignments (assignment_assetId g) d") auto
    \<comment> \<open>the assignment and the asset afterwards\<close>
    have asg: "assignments d' = map ?u (assignments d)" unfolding d' d1 by simp
    have fs: "find_assignment_scoped user i d' = Some (?u g)"
    proof -
      have "find_assignment_scoped user i d' = map_option ?u (find_assignment_scoped user i d)"
        unfolding find_assignment_scoped_def asg by (simp add: find_map_same)
      with g show ?thesis by simp
    qed
    have fa: "find_asset (assignment_assetId g) d'
        = map_option ?k (find_asset (assignment_assetId g) d)"
      unfolding find_asset_def d' d1 by (simp add: find_map_same)
    from asset_update_found[OF au] obtain a where a: "find_asset (assignment_assetId g) d = Some a"
      by (auto simp: find_asset_def d1)
    then have "asset_id a = assignment_assetId g"
      by (auto simp: find_asset_def dest: find_Some_iff[THEN iffD1])
    with a fa have st: "\<exists>a'. find_asset (assignment_assetId g) d' = Some a'
                      \<and> asset_status a' = newStatus condition" by simp
    have twice: "returnAssignment user i notes2 condition2 now2 d'
               = (Response 400 ''Asset has already been returned'', d')"
      using fs gi by (simp add: returnAssignment_def)
    from g op one asg fs gi st twice show ?thesis by simp
  qed
  from ok fail again tags show ?thesis by blast
qed

theorem returnAssignment_rules_witness:
  "one_open_assignment sample_db
   \<and> res_status (fst (returnAssignment cmd_X 20 None (Some ''DAMAGED'') 9 sample_db)) = 200
   \<and> map assignment_id (open_assignments 12 sample_db) = [20]
   \<and> (\<exists>a'. find_asset 12 (snd (returnAssignment cmd_X 20 None (Some ''DAMAGED'') 9 sample_db))
              = Some a' \<and> asset_status a' = MAINTENANCE)
   \<and> returnAssignment cmd_X 20 None (Some ''GOOD'') 10
        (snd (returnAssignment cmd_X 20 None (Some ''DAMAGED'') 9 sample_db))
       = (Response 400 ''Asset has already been returned'',
          snd (returnAssignment cmd_X 20 None (Some ''DAMAGED'') 9 sample_db))
   \<and> returnAssignment cmd_X 21 None (Some ''GOOD'') 9 sample_db
       = (Response 400 ''Asset has already been returned'', sample_db)"
proof -
  let ?r = "returnAssignment cmd_X 20 None (Some ''DAMAGED'') 9 sample_db"
  have inv: "one_open_assignment sample_db"
    by (simp add: one_open_assignment_def store_defs sample_defs)
  have s: "res_status (fst ?r) = 200"
    by (simp add: returnAssignment_def returnAssignment_body_def find_assignment_scoped_def
        return_notes_def newStatus_def store_defs sample_defs)
  have g: "find_assignment_scoped cmd_X 20 sample_db = Some (mk_assignment 20 12 None)"
    by (simp add: find_assignment_scoped_def sample_defs)
  have o: "map assignment_id (open_assignments 12 sample_db) = [20]"
    by (simp add: store_defs sample_defs)
  have old: "returnAssignment cmd_X 21 None (Some ''GOOD'') 9 sample_db
       = (Response 400 ''Asset has already been returned'', sample_db)"
    by (simp add: returnAssignment_def find_assignment_scoped_def sample_defs)
  from returnAssignment_rules[OF inv prod.collapse[symmetric],
      of cmd_X 20 None "Some ''DAMAGED''" 9 None "Some ''GOOD''" 10] s g
  have "\<exists>a'. find_asset (assignment_assetId (mk_assignment 20 12 None)) (snd ?r) = Some a'
              \<and> asset_status a' = newStatus (Some ''DAMAGED'')"
    and "newStatus (Some ''DAMAGED'') = MAINTENANCE"
    and "returnAssignment cmd_X 20 None (Some ''GOOD'') 10 (snd ?r)
       = (Response 400 ''Asset has already been returned'', snd ?r)"
    by auto
  then show ?thesis using inv s o old by (simp add: mk_assignment_def)
qed

subsection \<open>Claim C8: creating an assignment\<close>



subsection \<open>Claim C9: two requests for the same asset\<close>

text \<open>
  C9. Two \<^verbatim>\<open>createTransfer\<close> requests name asset 10, and both run their availability
  read on the sample store before either transaction starts. The claim expects one
  of them to fail with a conflict. In the code the availability read
  (\<^verbatim>\<open>prisma.asset.findMany\<close>) is outside \<^verbatim>\<open>prisma.$transaction\<close>, and the transaction
  sets the status without reading it again, so a request that has passed the read can
  only answer 201 or 500 (lemma \<open>createTransfer_tx_all_or_nothing\<close>). Here both answer
  201: asset 10 is IN_TRANSIT and is a member of two PENDING transfers. The transfer
  code, in contrast, is checked inside the transaction: the second request finds
  ``TRF-A'' taken and draws ``TRF-B''.
\<close>

theorem concurrent_createTransfer_double_claim:
  "createTransfer_validate cmd_X (transfer_req [10] 1 2) sample_db = None
   \<and> createTransfer_validate admin (transfer_req [10] 1 2) sample_db = None
   \<and> (\<exists>d2. createTransfer_interleaved cmd_X (transfer_req [10] 1 2) [''TRF-A'']
               admin (transfer_req [10] 1 2) [''TRF-A'', ''TRF-B''] 5 sample_db
             = Some (Response 201 ''Transfer created successfully'',
                     Response 201 ''Transfer created successfully'', d2)
          \<and> map (\<lambda>t. (transfer_id t, transfer_transferCode t, transfer_status t)) (transfers d2)
              = [(30, ''TRF-A'', PENDING), (32, ''TRF-B'', PENDING)]
          \<and> map (\<lambda>it. (item_transferId it, item_assetId it)) (transferItems d2)
              = [(30, 10), (32, 10)]
          \<and> map_option asset_status (find_asset 10 d2) = Some IN_TRANSIT)"
  by (simp add: createTransfer_interleaved_def createTransfer_defs store_defs sample_defs)

subsection \<open>Claim C10: the base of a base commander's request\<close>

text \<open>
  C10. For a caller who is a base commander with a home base, \<^verbatim>\<open>createAsset\<close>,
  \<^verbatim>\<open>createAssignment\<close> and \<^verbatim>\<open>createExpenditure\<close> do not read the \<^verbatim>\<open>baseId\<close> of the
  request: whatever base it names, the answer and the store are those of the same
  request naming the home base, and the row created on success carries the home base.
  The request is not rejected for the base it names: it is answered with success
  whenever the home base passes the checks of the handler, that is, for
  \<^verbatim>\<open>createAsset\<close> when the home base exists and the serial number is free; for
  \<^verbatim>\<open>createAssignment\<close> when the asset is AVAILABLE at the home base without an open
  assignment and the assigned user is of the home base; for \<^verbatim>\<open>createExpenditure\<close>
  when the asset is at the home base and not EXPENDED; in each case for a row of
  well-formed columns (texts without U+0000, a quantity of 32 bits, a value that fits
  the \<^verbatim>\<open>Decimal\<close> column). \<^verbatim>\<open>createTransfer\<close>, in contrast, answers 403 and changes nothing when
  the source base of the request (different from its destination) is not the home base.
\<close>

theorem base_commander_retargeted:
  assumes "user_role user = BASE_COMMANDER" and "user_baseId user = Some hb"
  shows "createAsset user body now d = createAsset user (body\<lparr>cab_baseId := hb\<rparr>) now d
       \<and> createAssignment user abody now d = createAssignment user (abody\<lparr>ca_baseId := hb\<rparr>) now d
       \<and> createExpenditure user ebody now d = createExpenditure user (ebody\<lparr>ce_baseId := hb\<rparr>) now d
       \<and> (res_status (fst (createAsset user body now d)) = 201 \<longrightarrow>
            (\<exists>a. assets (snd (createAsset user body now d)) = assets d @ [a] \<and> asset_baseId a = hb))
       \<and> (res_status (fst (createAssignment user abody now d)) = 201 \<longrightarrow>
            (\<exists>g. assignments (snd (createAssignment user abody now d)) = assignments d @ [g]
                 \<and> assignment_baseId g = hb))
       \<and> (res_status (fst (createExpenditure user ebody now d)) = 201 \<longrightarrow>
            (\<exists>e. expenditures (snd (createExpenditure user ebody now d)) = expenditures d @ [e]
                 \<and> expenditure_baseId e = hb)
          \<and> (\<exists>a. find_asset (ce_assetId ebody) d = Some a \<and> asset_baseId a = hb))
       \<and> (find_base hb d \<noteq> None \<and> find_asset_by_serial (cab_serialNumber body) d = None
            \<and> asset_columns_ok body \<longrightarrow>
            fst (createAsset user body now d) = Response 201 ''Asset created successfully'')
       \<and> (\<forall>a u. find_asset (ca_assetId abody) d = Some a \<and> asset_baseId a = hb
               \<and> asset_status a = AVAILABLE \<and> open_assignments (ca_assetId abody) d = []
               \<and> find_user (ca_assignedToId abody) d = Some u \<and> user_baseId u = Some hb
               \<and> text_ok (ca_purpose abody) \<and> text_opt_ok (ca_notes abody) \<longrightarrow>
            fst (createAssignment user abody now d) = Response 201 ''Asset assigned successfully'')
       \<and> (\<forall>a. find_asset (ce_assetId ebody) d = Some a \<and> asset_baseId a = hb
               \<and> asset_status a \<noteq> EXPENDED \<and> expenditure_columns_ok ebody \<longrightarrow>
            fst (createExpenditure user ebody now d)
              = Response 201 ''Expenditure recorded successfully'')
       \<and> (ct_fromBaseId tbody \<noteq> hb \<and> ct_fromBaseId tbody \<noteq> ct_toBaseId tbody \<longrightarrow>
            createTransfer user tbody codes now d =
              Some (Response 403 ''Base commanders can only transfer from their assigned base'', d))"
proof -
  have t: "targetBaseId user b = hb" for b
    using assms by (simp add: targetBaseId_def)
  have c: "asset_create (body\<lparr>cab_baseId := hb\<rparr>) tb now d = asset_create body tb now d" for tb
    by (simp add: asset_create_def asset_columns_ok_def)
  have 1: "createAsset user body now d = createAsset user (body\<lparr>cab_baseId := hb\<rparr>) now d"
    by (simp add: createAsset_def c t cong: option.case_cong if_cong)
  have 2: "createAssignment user abody now d = createAssignment user (abody\<lparr>ca_baseId := hb\<rparr>) now d"
    by (simp add: createAssignment_def createAssignment_body_def t cong: option.case_cong if_cong)
  have 3: "createExpenditure user ebody now d = createExpenditure user (ebody\<lparr>ce_baseId := hb\<rparr>) now d"
    by (simp add: createExpenditure_def createExpenditure_body_def t
        cong: option.case_cong if_cong sum.case_cong)
  have 4: "res_status (fst (createAsset user body now d)) = 201 \<longrightarrow>
            (\<exists>a. assets (snd (createAsset user body now d)) = assets d @ [a] \<and> asset_baseId a = hb)"
    by (auto simp: createAsset_def asset_create_def t split: option.splits)
  have 5: "res_status (fst (createAssignment user abody now d)) = 201 \<longrightarrow>
            (\<exists>g. assignments (snd (createAssignment user abody now d)) = assignments d @ [g]
                 \<and> assignment_baseId g = hb)"
    using createAssignment_ok[OF prod.collapse[symmetric], of user abody now d]
    by (simp add: t)
  have 6: "res_status (fst (createExpenditure user ebody now d)) = 201 \<longrightarrow>
            (\<exists>e. expenditures (snd (createExpenditure user ebody now d)) = expenditures d @ [e]
                 \<and> expenditure_baseId e = hb)
          \<and> (\<exists>a. find_asset (ce_assetId ebody) d = Some a \<and> asset_baseId a = hb)"
  proof
    assume ok: "res_status (fst (createExpenditure user ebody now d)) = 201"
    from createExpenditure_row[OF prod.collapse[symmetric] ok]
    have "\<exists>e. expenditures (snd (createExpenditure user ebody now d)) = expenditures d @ [e]
                 \<and> expenditure_baseId e = hb"
      by (auto simp: t)
    moreover from createExpenditure_steps[OF prod.collapse[symmetric], of user ebody now d] ok
    have "\<exists>a. find_asset (ce_assetId ebody) d = Some a \<and> asset_baseId a = hb"
      by (auto simp: t)
    ultimately show "(\<exists>e. expenditures (snd (createExpenditure user ebody now d)) = expenditures d @ [e]
                 \<and> expenditure_baseId e = hb)
          \<and> (\<exists>a. find_asset (ce_assetId ebody) d = Some a \<and> asset_baseId a = hb)" by simp
  qed
  have 7: "find_base hb d \<noteq> None \<and> find_asset_by_serial (cab_serialNumber body) d = None
            \<and> asset_columns_ok body \<longrightarrow>
            fst (createAsset user body now d) = Response 201 ''Asset created successfully''"
    using createAsset_succeeds[of user body d now] by (auto simp: t)
  have 8: "\<forall>a u. find_asset (ca_assetId abody) d = Some a \<and> asset_baseId a = hb
               \<and> asset_status a = AVAILABLE \<and> open_assignments (ca_assetId abody) d = []
               \<and> find_user (ca_assignedToId abody) d = Some u \<and> user_baseId u = Some hb
               \<and> text_ok (ca_purpose abody) \<and> text_opt_ok (ca_notes abody) \<longrightarrow>
            fst (createAssignment user abody now d) = Response 201 ''Asset assigned successfully''"
  proof (intro allI impI)
    fix a u
    assume h: "find_asset (ca_assetId abody) d = Some a \<and> asset_baseId a = hb
               \<and> asset_status a = AVAILABLE \<and> open_assignments (ca_assetId abody) d = []
               \<and> find_user (ca_assignedToId abody) d = Some u \<and> user_baseId u = Some hb
               \<and> text_ok (ca_purpose abody) \<and> text_opt_ok (ca_notes abody)"
    have "\<exists>d'. createAssignment user abody now d
           = (Response 201 ''Asset assigned successfully'', d')"
      by (rule createAssignment_succeeds[of abody d a user u]) (use h in \<open>simp_all add: t\<close>)
    then show "fst (createAssignment user abody now d) = Response 201 ''Asset assigned successfully''"
      by auto
  qed
  have 9: "\<forall>a. find_asset (ce_assetId ebody) d = Some a \<and> asset_baseId a = hb
               \<and> asset_status a \<noteq> EXPENDED \<and> expenditure_columns_ok ebody \<longrightarrow>
            fst (createExpenditure user ebody now d)
              = Response 201 ''Expenditure recorded successfully''"
  proof (intro allI impI)
    fix a
    assume h: "find_asset (ce_assetId ebody) d = Some a \<and> asset_baseId a = hb
               \<and> asset_status a \<noteq> EXPENDED \<and> expenditure_columns_ok ebody"
    have "\<exists>d'. createExpenditure user ebody now d
           = (Response 201 ''Expenditure recorded successfully'', d')"
      by (rule createExpenditure_succeeds[of ebody d a user]) (use h in \<open>simp_all add: t\<close>)
    then show "fst (createExpenditure user ebody now d)
              = Response 201 ''Expenditure recorded successfully''"
      by auto
  qed
  have 10: "ct_fromBaseId tbody \<noteq> hb \<and> ct_fromBaseId tbody \<noteq> ct_toBaseId tbody \<longrightarrow>
            createTransfer user tbody codes now d =
              Some (Response 403 ''Base commanders can only transfer from their assigned base'', d)"
    using assms by (auto simp: createTransfer_def createTransfer_validate_def)
  from 1 2 3 4 5 6 7 8 9 10 show ?thesis by blast
qed

text \<open>The commander of base 1 names base 2 in the three requests: a new asset, an
  assignment of asset 10 to the logistics officer of base 1, and an expenditure of
  asset 10. Each is answered 201 and the new row carries base 1. The transfer request
  from base 2 is answered 403.\<close>

theorem base_commander_retargeted_witness:
  "user_role cmd_X = BASE_COMMANDER \<and> user_baseId cmd_X = Some 1
   \<and> cab_baseId (asset_req ''WP-9'' 2) = 2 \<and> ca_baseId (assignment_req 10 6 2) = 2
   \<and> ce_baseId (expenditure_req 10 2) = 2
   \<and> createAsset cmd_X (asset_req ''WP-9'' 2) 9 sample_db
       = createAsset cmd_X (asset_req ''WP-9'' 1) 9 sample_db
   \<and> fst (createAsset cmd_X (asset_req ''WP-9'' 2) 9 sample_db)
       = Response 201 ''Asset created successfully''
   \<and> (\<exists>a. assets (snd (createAsset cmd_X (asset_req ''WP-9'' 2) 9 sample_db))
             = assets sample_db @ [a] \<and> asset_baseId a = 1)
   \<and> fst (createAssignment cmd_X (assignment_req 10 6 2) 9 sample_db)
       = Response 201 ''Asset assigned successfully''
   \<and> (\<exists>g. assignments (snd (createAssignment cmd_X (assignment_req 10 6 2) 9 sample_db))
             = assignments sample_db @ [g] \<and> assignment_baseId g = 1)
   \<and> fst (createExpenditure cmd_X (expenditure_req 10 2) 9 sample_db)
       = Response 201 ''Expenditure recorded successfully''
   \<and> (\<exists>e. expenditures (snd (createExpenditure cmd_X (expenditure_req 10 2) 9 sample_db))
             = expenditures sample_db @ [e] \<and> expenditure_baseId e = 1)
   \<and> createTransfer cmd_X (transfer_req [10] 2 1) [''TRF-A''] 9 sample_db
       = Some (Response 403 ''Base commanders can only transfer from their assigned base'',
               sample_db)"
proof -
  have h: "user_role cmd_X = BASE_COMMANDER" "user_baseId cmd_X = Some 1"
    by (simp_all add: cmd_X_def)
  have n: "cab_baseId (asset_req ''WP-9'' 2) = 2" "ca_baseId (assignment_req 10 6 2) = 2"
    "ce_baseId (expenditure_req 10 2) = 2"
    by (simp_all add: asset_req_def assignment_req_def expenditure_req_def)
  have e: "(asset_req ''WP-9'' 2)\<lparr>cab_baseId := 1\<rparr> = asset_req ''WP-9'' 1"
    "ct_fromBaseId (transfer_req [10] 2 1) = 2" "ct_toBaseId (transfer_req [10] 2 1) = 1"
    by (simp_all add: asset_req_def transfer_req_def)
  have pa: "find_base 1 sample_db \<noteq> None
      \<and> find_asset_by_serial (cab_serialNumber (asset_req ''WP-9'' 2)) sample_db = None
      \<and> asset_columns_ok (asset_req ''WP-9'' 2)"
    by (simp add: store_defs sample_defs)
  have pg: "find_asset (ca_assetId (assignment_req 10 6 2)) sample_db
        = Some (mk_asset 10 ''VH-001'' AVAILABLE 1)
      \<and> asset_baseId (mk_asset 10 ''VH-001'' AVAILABLE 1) = 1
      \<and> asset_status (mk_asset 10 ''VH-001'' AVAILABLE 1) = AVAILABLE
      \<and> open_assignments (ca_assetId (assignment_req 10 6 2)) sample_db = []
      \<and> find_user (ca_assignedToId (assignment_req 10 6 2)) sample_db = Some log_X
      \<and> user_baseId log_X = Some 1
      \<and> text_ok (ca_purpose (assignment_req 10 6 2))
      \<and> text_opt_ok (ca_notes (assignment_req 10 6 2))"
    by (simp add: store_defs sample_defs)
  have pe: "find_asset (ce_assetId (expenditure_req 10 2)) sample_db
        = Some (mk_asset 10 ''VH-001'' AVAILABLE 1)
      \<and> asset_baseId (mk_asset 10 ''VH-001'' AVAILABLE 1) = 1
      \<and> asset_status (mk_asset 10 ''VH-001'' AVAILABLE 1) \<noteq> EXPENDED
      \<and> expenditure_columns_ok (expenditure_req 10 2)"
    by (simp add: store_defs sample_defs expenditure_columns_ok_def quantity_default_def)
  note r = base_commander_retargeted[OF h, of "asset_req ''WP-9'' 2" 9 sample_db
      "assignment_req 10 6 2" "expenditure_req 10 2" "transfer_req [10] 2 1" "[''TRF-A'']"]
  from r have 1: "createAsset cmd_X (asset_req ''WP-9'' 2) 9 sample_db
          = createAsset cmd_X ((asset_req ''WP-9'' 2)\<lparr>cab_baseId := 1\<rparr>) 9 sample_db"
    by (elim conjE)
  from r pa have 2: "fst (createAsset cmd_X (asset_req ''WP-9'' 2) 9 sample_db)
       = Response 201 ''Asset created successfully''"
    by (elim conjE) simp
  from r 2 have 3: "\<exists>a. assets (snd (createAsset cmd_X (asset_req ''WP-9'' 2) 9 sample_db))
             = assets sample_db @ [a] \<and> asset_baseId a = 1"
    by (elim conjE) simp
  from r pg have 4: "fst (createAssignment cmd_X (assignment_req 10 6 2) 9 sample_db)
       = Response 201 ''Asset assigned successfully''"
    by (elim conjE) blast
  from r 4 have 5: "\<exists>g. assignments (snd (createAssignment cmd_X (assignment_req 10 6 2) 9 sample_db))
             = assignments sample_db @ [g] \<and> assignment_baseId g = 1"
    by (elim conjE) simp
  from r pe have 6: "fst (createExpenditure cmd_X (expenditure_req 10 2) 9 sample_db)
       = Response 201 ''Expenditure recorded successfully''"
    by (elim conjE) blast
  from r 6 have 7: "\<exists>e. expenditures (snd (createExpenditure cmd_X (expenditure_req 10 2) 9 sample_db))
             = expenditures sample_db @ [e] \<and> expenditure_baseId e = 1"
    by (elim conjE) simp
  from r e(2,3) have 8: "createTransfer cmd_X (transfer_req [10] 2 1) [''TRF-A''] 9 sample_db
           = Some (Response 403 ''Base commanders can only transfer from their assigned base'',
                   sample_db)"
    by (elim conjE) simp
  from h n 1 2 3 4 5 6 7 8 show ?thesis unfolding e by simp
qed
end
